theory Spec2Isabelle
  imports Main "HOL-Library.Word" "HOL-Library.Sublist"
begin

section \<open>TinyChat: the encrypted messaging protocol and its conversation views\<close>

text \<open>
  The client is one TypeScript file: a key manager (\<open>exportRSAKey\<close>, \<open>str2ab\<close>,
  \<open>importRSAKey\<close>), a receive handler (\<open>peer.on('connection')\<close> /
  \<open>dataConnection.on('data')\<close>), \<open>createChat\<close> with the input box's
  \<open>onkeydown\<close>, and \<open>send\<close> with its \<open>conn.on('open')\<close> callback, which echoes
  a sent message into the local view and attaches \<open>onclick\<close> / \<open>ondblclick\<close>.

  Modelling decisions, fixed here once:
  \<^item> A JavaScript string is a list of UTF-16 code units (\<open>16 word list\<close>); a
    \<open>Uint8Array\<close> is an \<open>8 word list\<close>.
  \<^item> A \<open>CryptoKey\<close> is represented by its key material (the bytes \<open>exportKey\<close>
    returns). The cryptographic primitives, the UTF-8 codec and the part of
    \<open>JSON.parse\<close> beyond arrays of byte values belong to the browser; they are the
    fields of a \<open>platform\<close> record that every handler takes as a parameter.
  \<^item> \<open>btoa\<close>, \<open>atob\<close> and \<open>String.prototype.substring\<close> are written out after
    their standards (WHATWG forgiving-base64, ECMA-262).
  \<^item> The document is a list of blocks in tree order. A block is an element that
    holds child elements the client looks at: a chat block (the \<open>details\<close> that
    \<open>createChat\<close> appends to the body, with its view \<open>span\<close> and its input box) or
    an element of the page itself that carries an id (\<open>page_element\<close>). The page's
    HTML file is not among the sources; its elements precede every chat block, since
    chat blocks are appended at the end of the body, and an element of the page that
    contains the chat blocks (\<open>body\<close>, \<open>html\<close>) is taken to carry no id.
    A child element is its \<open>id\<close>, \<open>className\<close> and \<open>innerHTML\<close>.
  \<^item> \<open>innerHTML\<close> is kept as the string that was assigned. The browser parses the
    string and reads back the serialisation of what it parsed; the two agree for the
    strings recognised by \<open>stable_html\<close> (text without markup characters, and
    properly nested \<open>small\<close> and \<open>i\<close> tags, of which the time suffixes are made),
    and such a string creates no element with an id or a class and runs no script. A
    state all of whose strings are of this kind is \<open>plain\<close>; in a plain state the
    blocks and their children are all the elements that \<open>getElementById\<close> can find.
    Outside the plain states the document stands for less than the page holds, and
    the theorems that depend on the page say so in their hypotheses.
  \<^item> A handler that leaves what the document represents (it would work inside a
    message paragraph, re-parse a whole view, or reach for the input box next to an
    element of the page) ends with the error \<open>Unmodelled\<close>; \<open>tracked\<close> singles out
    the runs in which this never happens and every state is plain.
  \<^item> An envelope is what \<open>JSON.parse(data)\<close> yields for a well-typed
    \<open>MessageData\<close>. \<open>aesKeys\<close> is a JavaScript object used as a table: the
    entries are a finite map from peer ids, and a name without an entry can still be
    one the object inherits from its prototype (\<open>inherited\<close>).
  \<^item> Every handler runs to completion on the state it is given (section 5 of the
    specification); a thrown exception (a rejected promise of an \<open>async\<close> handler)
    is the \<open>Inl\<close> branch of the result, next to the state at the moment of the throw.
\<close>

unbundle bit_operations_syntax

subsection \<open>Strings and byte arrays\<close>

type_synonym jsstring = "16 word list"
type_synonym bytes = "8 word list"

definition js :: "string \<Rightarrow> jsstring" where
  "js s = map of_char s"

text \<open>\<open>String.prototype.endsWith\<close>.\<close>

definition endsWith :: "jsstring \<Rightarrow> jsstring \<Rightarrow> bool" where
  "endsWith s t = (length t \<le> length s \<and> drop (length s - length t) s = t)"

text \<open>\<open>String.prototype.substring(start, end)\<close>: both indices are clamped to
  \<open>[0, length]\<close> and swapped when out of order.\<close>

definition substring :: "jsstring \<Rightarrow> int \<Rightarrow> int \<Rightarrow> jsstring" where
  "substring s a b =
     (let n = int (length s);
          a' = max 0 (min a n);
          b' = max 0 (min b n);
          lo = min a' b';
          hi = max a' b'
      in take (nat (hi - lo)) (drop (nat lo) s))"

text \<open>\<open>String.fromCharCode.apply(null, bytes)\<close>: one code unit per byte.\<close>

definition fromCharCode :: "bytes \<Rightarrow> jsstring" where
  "fromCharCode bs = map ucast bs"

text \<open>\<open>str2ab\<close>: \<open>bufView[i] = str.charCodeAt(i)\<close> stores each code unit into a
  \<open>Uint8Array\<close>, that is modulo 256.\<close>

definition str2ab :: "jsstring \<Rightarrow> bytes" where
  "str2ab str = map ucast str"

text \<open>The exceptions of the client, by name. \<open>Unmodelled\<close> is not one of them: it
  marks the point at which a handler leaves what the document represents (see
  \<open>in_view\<close>, \<open>set_innerHTML\<close>, \<open>restore_previous\<close> and \<open>onclick\<close> below).\<close>

datatype error =
    TypeError
  | SyntaxError
  | RangeError
  | InvalidCharacterError
  | DataError
  | OperationError
  | Error jsstring
  | Unmodelled

subsection \<open>Base64: \<open>window.btoa\<close> and \<open>window.atob\<close>\<close>

definition b64_char :: "nat \<Rightarrow> 16 word" where
  "b64_char n =
     (if n < 26 then of_nat (65 + n)
      else if n < 52 then of_nat (71 + n)
      else if n < 62 then of_nat (n - 4)
      else if n = 62 then 43 else 47)"

definition b64_value :: "16 word \<Rightarrow> nat option" where
  "b64_value c =
     (let u = unat c in
      if 65 \<le> u \<and> u \<le> 90 then Some (u - 65)
      else if 97 \<le> u \<and> u \<le> 122 then Some (u - 71)
      else if 48 \<le> u \<and> u \<le> 57 then Some (u + 4)
      else if u = 43 then Some 62
      else if u = 47 then Some 63
      else None)"

text \<open>Three bytes become four six-bit values; a tail of one or two bytes becomes two or
  three values, zero-filled (RFC 4648).\<close>

fun encode_groups :: "nat list \<Rightarrow> nat list" where
  "encode_groups [] = []"
| "encode_groups [a] = [a div 4, (a mod 4) * 16]"
| "encode_groups [a, b] = [a div 4, (a mod 4) * 16 + b div 16, (b mod 16) * 4]"
| "encode_groups (a # b # c # r) =
     [a div 4, (a mod 4) * 16 + b div 16, (b mod 16) * 4 + c div 64, c mod 64]
       @ encode_groups r"

text \<open>\<open>btoa\<close> throws on a code unit above 255 and pads with \<open>=\<close>.\<close>

definition btoa :: "jsstring \<Rightarrow> error + jsstring" where
  "btoa s =
     (if list_ex (\<lambda>c. 255 < c) s then Inl InvalidCharacterError
      else Inr (map b64_char (encode_groups (map unat s))
                @ replicate ((3 - length s mod 3) mod 3) 61))"

definition ascii_whitespace :: "16 word \<Rightarrow> bool" where
  "ascii_whitespace c = (c = 9 \<or> c = 10 \<or> c = 12 \<or> c = 13 \<or> c = 32)"

definition strip_padding :: "jsstring \<Rightarrow> jsstring" where
  "strip_padding d =
     (if length d mod 4 = 0 then
        (if 2 \<le> length d \<and> drop (length d - 2) d = [61, 61] then take (length d - 2) d
         else if 1 \<le> length d \<and> last d = 61 then butlast d
         else d)
      else d)"

text \<open>Four six-bit values give three bytes; of a tail of two (three) values the last
  four (two) bits are discarded.\<close>

fun decode_groups :: "nat list \<Rightarrow> nat list" where
  "decode_groups (s1 # s2 # s3 # s4 # r) =
     [s1 * 4 + s2 div 16, (s2 mod 16) * 16 + s3 div 4, (s3 mod 4) * 64 + s4]
       @ decode_groups r"
| "decode_groups [s1, s2, s3] = [s1 * 4 + s2 div 16, (s2 mod 16) * 16 + s3 div 4]"
| "decode_groups [s1, s2] = [s1 * 4 + s2 div 16]"
| "decode_groups [s1] = []"
| "decode_groups [] = []"

text \<open>\<open>atob\<close> is the forgiving-base64 decode: strip ASCII whitespace, drop one or two
  trailing \<open>=\<close> when the length is a multiple of four, fail on a length of 1 modulo 4
  and on any code unit outside the alphabet.\<close>

definition atob :: "jsstring \<Rightarrow> error + jsstring" where
  "atob s =
     (let d = strip_padding (filter (\<lambda>c. \<not> ascii_whitespace c) s) in
      if length d mod 4 = 1 then Inl InvalidCharacterError
      else case those (map b64_value d) of
             None \<Rightarrow> Inl InvalidCharacterError
           | Some vs \<Rightarrow> Inr (map of_nat (decode_groups vs)))"

subsection \<open>JSON texts of byte arrays\<close>

text \<open>\<open>JSON.stringify(Array.from(u8))\<close>: the shortest decimal of each byte, separated
  by commas, in brackets.\<close>

definition digit_char :: "nat \<Rightarrow> 16 word" where
  "digit_char d = of_nat (48 + d)"

definition number_text :: "8 word \<Rightarrow> jsstring" where
  "number_text b =
     (let n = unat b in
      if n < 10 then [digit_char n]
      else if n < 100 then [digit_char (n div 10), digit_char (n mod 10)]
      else [digit_char (n div 100), digit_char (n div 10 mod 10), digit_char (n mod 10)])"

fun join_numbers :: "bytes \<Rightarrow> jsstring" where
  "join_numbers [] = []"
| "join_numbers [b] = number_text b"
| "join_numbers (b # bs) = number_text b @ 44 # join_numbers bs"

definition stringify_bytes :: "bytes \<Rightarrow> jsstring" where
  "stringify_bytes bs = 91 # join_numbers bs @ [93]"

text \<open>\<open>JSON.stringify([Array.from(iv), Array.from(wrapped)])\<close>.\<close>

definition stringify_pair :: "bytes \<Rightarrow> bytes \<Rightarrow> jsstring" where
  "stringify_pair iv w = 91 # stringify_bytes iv @ 44 # stringify_bytes w @ [93]"

text \<open>
  \<open>new Uint8Array(JSON.parse(text))\<close> is written out for the texts \<open>JSON.stringify\<close>
  produces from byte arrays: brackets around comma-separated canonical decimals
  \<open>0 .. 255\<close>, no white space. On every other text the result (a \<open>SyntaxError\<close>,
  or whatever array the constructor builds from the parsed value) is the platform's.
\<close>

definition is_digit :: "16 word \<Rightarrow> bool" where
  "is_digit c = (48 \<le> c \<and> c \<le> 57)"

definition decimal_value :: "jsstring \<Rightarrow> nat" where
  "decimal_value ds = foldl (\<lambda>a c. a * 10 + (unat c - 48)) 0 ds"

definition parse_number :: "jsstring \<Rightarrow> 8 word option" where
  "parse_number ds =
     (if ds \<noteq> [] \<and> length ds \<le> 3 \<and> list_all is_digit ds
         \<and> (hd ds \<noteq> 48 \<or> length ds = 1) \<and> decimal_value ds \<le> 255
      then Some (of_nat (decimal_value ds)) else None)"

function parse_numbers :: "jsstring \<Rightarrow> bytes option" where
  "parse_numbers s =
     (case dropWhile (\<lambda>c. c \<noteq> 44) s of
        [] \<Rightarrow> map_option (\<lambda>b. [b]) (parse_number s)
      | c # r \<Rightarrow>
          (case parse_number (takeWhile (\<lambda>c. c \<noteq> 44) s) of
             None \<Rightarrow> None
           | Some b \<Rightarrow> map_option ((#) b) (parse_numbers r)))"
  by pat_completeness auto
termination
proof (relation "measure length")
  show "wf (measure length)" by simp
next
  fix s :: jsstring and c r
  assume "dropWhile (\<lambda>c. c \<noteq> 44) s = c # r"
  then have "length (c # r) \<le> length s"
    by (metis length_dropWhile_le)
  then show "(r, s) \<in> measure length" by simp
qed

definition parse_byte_array :: "jsstring \<Rightarrow> bytes option" where
  "parse_byte_array s =
     (case s of
        [] \<Rightarrow> None
      | c # r \<Rightarrow>
          if c = 91 \<and> r \<noteq> [] \<and> last r = 93
          then (if butlast r = [] then Some [] else parse_numbers (butlast r))
          else None)"

definition parse_pair :: "jsstring \<Rightarrow> (bytes \<times> bytes) option" where
  "parse_pair s =
     (case s of
        [] \<Rightarrow> None
      | c # r \<Rightarrow>
          if c = 91 \<and> r \<noteq> [] \<and> last r = 93
          then (let inner = butlast r;
                    a = takeWhile (\<lambda>c. c \<noteq> 93) inner
                in case dropWhile (\<lambda>c. c \<noteq> 93) inner of
                     c1 # c2 # b \<Rightarrow>
                       if c2 = 44
                       then (case (parse_byte_array (a @ [93]), parse_byte_array b) of
                               (Some iv, Some w) \<Rightarrow> Some (iv, w)
                             | _ \<Rightarrow> None)
                       else None
                   | _ \<Rightarrow> None)
          else None)"

subsection \<open>The browser platform\<close>

text \<open>
  \<open>crypto.subtle.encrypt\<close> / \<open>decrypt\<close> with AES-CBC take the iv, the key and the
  data; with RSA-OAEP the key and the data. \<open>None\<close> is the rejection with an
  \<open>OperationError\<close>. \<open>valid_spki\<close> and \<open>valid_raw\<close> say which byte strings
  \<open>importKey\<close> accepts. \<open>object_property\<close> says which names are properties of
  \<open>Object.prototype\<close> (\<open>constructor\<close>, \<open>toString\<close>, \<open>__proto__\<close>, ...), and
  \<open>array_property\<close> which names are properties of a two-element array (its indices,
  \<open>length\<close>, and the names of \<open>Array.prototype\<close>).
\<close>

record platform =
  aes_encrypt :: "bytes \<Rightarrow> bytes \<Rightarrow> bytes \<Rightarrow> bytes option"
  aes_decrypt :: "bytes \<Rightarrow> bytes \<Rightarrow> bytes \<Rightarrow> bytes option"
  rsa_encrypt :: "bytes \<Rightarrow> bytes \<Rightarrow> bytes option"
  rsa_decrypt :: "bytes \<Rightarrow> bytes \<Rightarrow> bytes option"
  valid_spki :: "bytes \<Rightarrow> bool"
  valid_raw :: "bytes \<Rightarrow> bool"
  utf8_encode :: "jsstring \<Rightarrow> bytes"
  utf8_decode :: "bytes \<Rightarrow> jsstring"
  json_bytes_other :: "jsstring \<Rightarrow> error + bytes"
  json_pair_other :: "jsstring \<Rightarrow> error + bytes \<times> bytes"
  object_property :: "jsstring \<Rightarrow> bool"
  array_property :: "jsstring \<Rightarrow> bool"

definition importKey_spki :: "platform \<Rightarrow> bytes \<Rightarrow> error + bytes" where
  "importKey_spki P bs = (if valid_spki P bs then Inr bs else Inl DataError)"

definition importKey_raw :: "platform \<Rightarrow> bytes \<Rightarrow> error + bytes" where
  "importKey_raw P bs = (if valid_raw P bs then Inr bs else Inl DataError)"

text \<open>\<open>new Uint8Array(JSON.parse(body))\<close>.\<close>

definition json_bytes :: "platform \<Rightarrow> jsstring \<Rightarrow> error + bytes" where
  "json_bytes P s =
     (case parse_byte_array s of Some bs \<Rightarrow> Inr bs | None \<Rightarrow> json_bytes_other P s)"

text \<open>\<open>parsed = JSON.parse(body)\<close>, then \<open>new Uint8Array(parsed[0])\<close> and
  \<open>new Uint8Array(parsed[1])\<close>.\<close>

definition json_pair :: "platform \<Rightarrow> jsstring \<Rightarrow> error + bytes \<times> bytes" where
  "json_pair P s =
     (case parse_pair s of Some p \<Rightarrow> Inr p | None \<Rightarrow> json_pair_other P s)"

subsection \<open>Key manager\<close>

definition pem_begin :: jsstring where
  "pem_begin = js ''-----BEGIN PUBLIC KEY-----''"

definition pem_end :: jsstring where
  "pem_end = js ''-----END PUBLIC KEY-----''"

text \<open>\<open>exportRSAKey\<close>; \<open>key\<close> is what \<open>exportKey("spki", key)\<close> returns.\<close>

definition exportRSAKey :: "bytes \<Rightarrow> error + jsstring" where
  "exportRSAKey key =
     (case btoa (fromCharCode key) of
        Inl e \<Rightarrow> Inl e
      | Inr b \<Rightarrow> Inr (pem_begin @ [10] @ b @ [10] @ pem_end))"

definition importRSAKey :: "platform \<Rightarrow> jsstring \<Rightarrow> error + bytes" where
  "importRSAKey P pem =
     (case atob (substring pem (int (length pem_begin))
                   (int (length pem) - int (length pem_end) - 1)) of
        Inl e \<Rightarrow> Inl e
      | Inr s \<Rightarrow> importKey_spki P (str2ab s))"

subsection \<open>Envelopes\<close>

datatype MessageDataEvent = Typing | StopTyping | Edit | Delivered | RSAKeyShare | AESKeyShare

text \<open>\<open>MessageData\<close>. The \<open>effect\<close> field has the empty enumeration
  \<open>MessageDataEffects\<close> as its type and is never set. An absent \<open>event\<close> is
  \<open>None\<close>; the \<open>switch\<close> statements send it to their \<open>default\<close> case.\<close>

record MessageData =
  md_from :: jsstring
  md_body :: jsstring
  md_time :: jsstring
  md_id :: jsstring
  md_event :: "MessageDataEvent option"
  md_prev :: "jsstring option"

subsection \<open>The document\<close>

record element =
  elem_id :: jsstring
  className :: jsstring
  innerHTML :: jsstring

text \<open>
  One block. For a \<open>details\<close> block of \<open>createChat\<close>: the \<open>summary\<close>, the view
  \<open>span\<close> (\<open>el\<close>, with \<open>el.id = to\<close>) with its children, and the value of the
  input box, which is the next sibling of the view. For an element of the page itself
  (\<open>page_element\<close>): its id and its children; it has no summary and what follows it
  in the page is not known.
\<close>

record chat =
  view_id :: jsstring
  summary :: jsstring
  children :: "element list"
  sendBar :: jsstring
  page_element :: bool

text \<open>A looked-up element: the view \<open>span\<close> (or page element) of block \<open>k\<close>, or
  child \<open>i\<close> of block \<open>k\<close>.\<close>

datatype ref = RView nat | RNode nat nat

fun first_with_id :: "element list \<Rightarrow> jsstring \<Rightarrow> nat \<Rightarrow> nat option" where
  "first_with_id [] x i = None"
| "first_with_id (n # ns) x i = (if elem_id n = x then Some i else first_with_id ns x (Suc i))"

fun find_element :: "chat list \<Rightarrow> jsstring \<Rightarrow> nat \<Rightarrow> ref option" where
  "find_element [] x k = None"
| "find_element (c # cs) x k =
     (if view_id c = x then Some (RView k)
      else case first_with_id (children c) x 0 of
             Some i \<Rightarrow> Some (RNode k i)
           | None \<Rightarrow> find_element cs x (Suc k))"

text \<open>\<open>document.getElementById\<close>: the first element in tree order whose id is the
  argument; an element whose \<open>id\<close> attribute is empty has no id. The search runs
  through the blocks, the elements of the page among them, and through their
  children.\<close>

definition getElementById :: "chat list \<Rightarrow> jsstring \<Rightarrow> ref option" where
  "getElementById d x = (if x = [] then None else find_element d x 0)"

definition small_open :: jsstring where
  "small_open = js '' <small><small><small><i>''"

definition small_close :: jsstring where
  "small_close = js ''</i></small></small></small>''"

text \<open>The template tail \<open> <small><small><small><i>${time}</i></small></small></small>\<close>.\<close>

definition time_suffix :: "jsstring \<Rightarrow> jsstring" where
  "time_suffix t = small_open @ t @ small_close"

text \<open>The delivered mark carries U+2713 (check mark), the editing mark U+270E (pencil).\<close>

definition delivered_mark :: jsstring where
  "delivered_mark = time_suffix [0x2713]"

definition editing_mark :: jsstring where
  "editing_mark = time_suffix [0x270E]"

definition small_inner :: "jsstring \<Rightarrow> jsstring" where
  "small_inner t = js ''<small><small><i>'' @ t @ js ''</i></small></small>''"

text \<open>\<open>el.lastChild && el.lastChild.className === 'typing'\<close>.\<close>

definition lastChild_typing :: "chat \<Rightarrow> bool" where
  "lastChild_typing c = (children c \<noteq> [] \<and> className (last (children c)) = js ''typing'')"

definition removeTyping :: "chat \<Rightarrow> chat" where
  "removeTyping c = (if lastChild_typing c then c\<lparr>children := butlast (children c)\<rparr> else c)"

text \<open>\<open>el.insertAdjacentElement('beforeend', paragraph)\<close> and
  \<open>el.insertBefore(paragraph, el.lastChild)\<close>.\<close>

definition appendChild :: "element \<Rightarrow> chat \<Rightarrow> chat" where
  "appendChild n c = c\<lparr>children := children c @ [n]\<rparr>"

definition insertBeforeLast :: "element \<Rightarrow> chat \<Rightarrow> chat" where
  "insertBeforeLast n c = c\<lparr>children := butlast (children c) @ [n, last (children c)]\<rparr>"

definition set_child_html :: "nat \<Rightarrow> jsstring \<Rightarrow> chat \<Rightarrow> chat" where
  "set_child_html i h c = c\<lparr>children := (children c)[i := (children c ! i)\<lparr>innerHTML := h\<rparr>]\<rparr>"

subsection \<open>Markup that reads back as it was written\<close>

text \<open>
  A code unit that the HTML parser takes as text and the serialiser writes back
  unchanged: not \<open><\<close>, \<open>>\<close> or \<open>&\<close>, which the serialiser escapes or the parser
  interprets, not U+0000 (dropped), U+000D (turned into a line feed), U+00A0 (written
  as a character reference) and not a surrogate.
\<close>

definition inert_char :: "16 word \<Rightarrow> bool" where
  "inert_char c =
     (c \<noteq> 0x3C \<and> c \<noteq> 0x3E \<and> c \<noteq> 0x26 \<and> c \<noteq> 0 \<and> c \<noteq> 0x0D \<and> c \<noteq> 0xA0
      \<and> (c < 0xD800 \<or> 0xDFFF < c))"

definition inert :: "jsstring \<Rightarrow> bool" where
  "inert s = list_all inert_char s"

datatype tag = Small | Italic

text \<open>
  A scanner for text of such code units with properly nested \<open><small>\<close> and
  \<open><i>\<close> elements. The first argument is the stack of open elements, the second
  the characters read since an unclosed \<open><\<close>.
\<close>

fun html_scan :: "tag list \<Rightarrow> jsstring option \<Rightarrow> jsstring \<Rightarrow> bool" where
  "html_scan stack None [] = (stack = [])"
| "html_scan stack (Some b) [] = False"
| "html_scan stack None (c # s) =
     (if c = 0x3C then html_scan stack (Some []) s
      else inert_char c \<and> html_scan stack None s)"
| "html_scan stack (Some b) (c # s) =
     (if c = 0x3E then
        (if b = js ''small'' then html_scan (Small # stack) None s
         else if b = js ''i'' then html_scan (Italic # stack) None s
         else if b = js ''/small'' then
           (case stack of Small # r \<Rightarrow> html_scan r None s | _ \<Rightarrow> False)
         else if b = js ''/i'' then
           (case stack of Italic # r \<Rightarrow> html_scan r None s | _ \<Rightarrow> False)
         else False)
      else html_scan stack (Some (b @ [c])) s)"

definition stable_html :: "jsstring \<Rightarrow> bool" where
  "stable_html s = html_scan [] None s"

text \<open>A block, and a document, in which every string that was assigned to an
  \<open>innerHTML\<close> is of this kind.\<close>

definition plain_block :: "chat \<Rightarrow> bool" where
  "plain_block c =
     (stable_html (summary c) \<and> list_all (\<lambda>n. stable_html (innerHTML n)) (children c))"

text \<open>The value setter of an \<open>input type="text"\<close> strips line breaks.\<close>

definition input_value :: "jsstring \<Rightarrow> jsstring" where
  "input_value s = filter (\<lambda>c. c \<noteq> 10 \<and> c \<noteq> 13) s"

subsection \<open>Client state\<close>

text \<open>
  The global variables \<open>editing\<close>, \<open>replying\<close>, \<open>keyPair\<close>, \<open>aesKeys\<close>,
  \<open>peer.id\<close> and the document. \<open>pending\<close> holds the \<open>send\<close> calls whose
  channel has not opened yet, \<open>wire\<close> the envelopes handed to \<open>conn.send\<close>.
  \<open>decrypt_calls\<close> is a ghost log of the AES \<open>crypto.subtle.decrypt\<close> calls
  (iv, key, ciphertext), \<open>keyless_calls\<close> one of the calls made with \<open>undefined\<close>
  in place of the key (the ciphertext only).

  \<open>aesKeys\<close> is an object literal \<open>{}\<close> indexed by peer id. An assignment
  \<open>aesKeys[p] = [iv, key]\<close> creates the entry \<open>p\<close>; for \<open>p = "__proto__"\<close> it
  installs the pair as the prototype of the object instead, and reading
  \<open>aesKeys["__proto__"]\<close> then yields that pair, so this too is an entry of the map.
\<close>

record state =
  peer_id :: jsstring
  keyPair :: "bytes \<times> bytes"
  aesKeys :: "jsstring \<Rightarrow> (bytes \<times> bytes) option"
  editing :: "jsstring option"
  replying :: "jsstring option"
  document :: "chat list"
  pending :: "(jsstring \<times> MessageData) list"
  wire :: "(jsstring \<times> MessageData) list"
  decrypt_calls :: "(bytes \<times> bytes \<times> bytes) list"
  keyless_calls :: "bytes list"

type_synonym 'a outcome = "state \<times> (error + 'a)"

definition plain :: "state \<Rightarrow> bool" where
  "plain st = list_all plain_block (document st)"

definition update_chat :: "state \<Rightarrow> nat \<Rightarrow> (chat \<Rightarrow> chat) \<Rightarrow> state" where
  "update_chat st k f = st\<lparr>document := (document st)[k := f (document st ! k)]\<rparr>"

text \<open>A string or \<open>undefined\<close> in a condition: \<open>undefined\<close> and \<open>''\<close> are falsy.\<close>

definition truthy :: "jsstring option \<Rightarrow> bool" where
  "truthy s = (case s of None \<Rightarrow> False | Some x \<Rightarrow> x \<noteq> [])"

text \<open>\<open>send\<close> connects and registers the \<open>open\<close> callback; nothing else happens
  before the channel opens.\<close>

definition send :: "state \<Rightarrow> jsstring \<Rightarrow> MessageData \<Rightarrow> state" where
  "send st to md = st\<lparr>pending := pending st @ [(to, md)]\<rparr>"

definition control :: "state \<Rightarrow> jsstring \<Rightarrow> MessageDataEvent \<Rightarrow> MessageData" where
  "control st i ev =
     \<lparr>md_from = peer_id st, md_body = [], md_time = [], md_id = i,
      md_event = Some ev, md_prev = None\<rparr>"

text \<open>
  \<open>createChat\<close>: a new block at the end of the body; with \<open>establishKey\<close> the
  exported public key is sent as \<open>RSAKeyShare\<close>. The result is the new view
  \<open>el\<close>. The view starts as \<open>el.innerHTML = `<u>${to}</u>`\<close>: for a peer id that
  is \<open>stable_html\<close> this is one \<open>u\<close> element that reads back the id, which is what
  the block holds. The block holds the same for any other id, where the parser would
  make more of the markup in the id; the state is not \<open>plain\<close> then.
\<close>

definition createChat :: "state \<Rightarrow> jsstring \<Rightarrow> bool \<Rightarrow> ref outcome" where
  "createChat st to establishKey =
     (let el = RView (length (document st));
          st1 = st\<lparr>document := document st @
                  [\<lparr>view_id = to, summary = peer_id st,
                    children = [\<lparr>elem_id = [], className = [], innerHTML = to\<rparr>],
                    sendBar = [], page_element = False\<rparr>]\<rparr>
      in if establishKey then
           (case exportRSAKey (fst (keyPair st1)) of
              Inl e \<Rightarrow> (st1, Inl e)
            | Inr pem \<Rightarrow> (send st1 to ((control st1 [] RSAKeyShare)\<lparr>md_body := pem\<rparr>), Inr el))
         else (st1, Inr el))"

text \<open>
  A name without an entry that \<open>aesKeys\<close> inherits: a property of
  \<open>Object.prototype\<close>, or of the array that an assignment to \<open>"__proto__"\<close> has
  installed as the prototype. \<open>aesKeys[p]\<close> is then a function, an object or a
  number, and \<open>aesKeys[p][0]\<close> and \<open>aesKeys[p][1]\<close> are read without an exception;
  neither is a \<open>CryptoKey\<close>.
\<close>

definition inherited :: "platform \<Rightarrow> (jsstring \<Rightarrow> (bytes \<times> bytes) option) \<Rightarrow> jsstring \<Rightarrow> bool" where
  "inherited P keys p =
     (object_property P p \<or> (keys (js ''__proto__'') \<noteq> None \<and> array_property P p))"

text \<open>
  The expression shared by the receive handler and the local echo:
  \<open>await crypto.subtle.decrypt({name: 'AES-CBC', iv: aesKeys[p][0]}, aesKeys[p][1],
  new Uint8Array(JSON.parse(body)))\<close>. The arguments are evaluated left to right.
  When \<open>aesKeys[p]\<close> is \<open>undefined\<close>, reading its index 0 is a \<open>TypeError\<close>
  before anything is parsed or decrypted. When \<open>p\<close> is an inherited name, the body is
  parsed and \<open>decrypt\<close> is called with something that is not a \<open>CryptoKey\<close>,
  which rejects with a \<open>TypeError\<close>.
\<close>

definition decrypt_body :: "platform \<Rightarrow> state \<Rightarrow> jsstring \<Rightarrow> jsstring \<Rightarrow> bytes outcome" where
  "decrypt_body P st p body =
     (case aesKeys st p of
        None \<Rightarrow>
          (if inherited P (aesKeys st) p then
             (case json_bytes P body of
                Inl e \<Rightarrow> (st, Inl e)
              | Inr ct \<Rightarrow> (st\<lparr>keyless_calls := keyless_calls st @ [ct]\<rparr>, Inl TypeError))
           else (st, Inl TypeError))
      | Some (iv, key) \<Rightarrow>
          (case json_bytes P body of
             Inl e \<Rightarrow> (st, Inl e)
           | Inr ct \<Rightarrow>
               (let st1 = st\<lparr>decrypt_calls := decrypt_calls st @ [(iv, key, ct)]\<rparr>
                in case aes_decrypt P iv key ct of
                     None \<Rightarrow> (st1, Inl OperationError)
                   | Some pt \<Rightarrow> (st1, Inr pt))))"

text \<open>\<open>new TextDecoder().decode(...)\<close> of it.\<close>

definition decrypt_text :: "platform \<Rightarrow> state \<Rightarrow> jsstring \<Rightarrow> jsstring \<Rightarrow> jsstring outcome" where
  "decrypt_text P st p body =
     (case decrypt_body P st p body of
        (st1, Inl e) \<Rightarrow> (st1, Inl e)
      | (st1, Inr pt) \<Rightarrow> (st1, Inr (utf8_decode P pt)))"

text \<open>The expression of \<open>sendBar.onkeydown\<close>:
  \<open>JSON.stringify(Array.from(new Uint8Array(await crypto.subtle.encrypt({name:
  'AES-CBC', iv: aesKeys[to][0]}, aesKeys[to][1], bytes))))\<close>. Without an entry the
  \<open>TypeError\<close> comes from the lookup or, for an inherited name, from \<open>encrypt\<close>
  called without a \<open>CryptoKey\<close>.\<close>

definition encrypt_value :: "platform \<Rightarrow> state \<Rightarrow> jsstring \<Rightarrow> bytes \<Rightarrow> error + jsstring" where
  "encrypt_value P st to m =
     (case aesKeys st to of
        None \<Rightarrow> Inl TypeError
      | Some (iv, key) \<Rightarrow>
          (case aes_encrypt P iv key m of
             None \<Rightarrow> Inl OperationError
           | Some ct \<Rightarrow> Inr (stringify_bytes ct)))"

text \<open>
  Assigning \<open>text + time suffix\<close> to the \<open>innerHTML\<close> of a looked-up element. For a
  child of a block the string is stored. For a view \<open>span\<close> the assignment replaces
  all children: with a text and a time that hold no markup, what is left as child
  element is the outer \<open>small\<close> of the suffix, after a text node; with markup in
  them the view gets the elements of that markup as children, which is not followed.
\<close>

definition set_innerHTML :: "state \<Rightarrow> ref \<Rightarrow> jsstring \<Rightarrow> jsstring \<Rightarrow> unit outcome" where
  "set_innerHTML st r text t =
     (case r of
        RNode k i \<Rightarrow> (update_chat st k (set_child_html i (text @ time_suffix t)), Inr ())
      | RView k \<Rightarrow>
          (if inert text \<and> inert t then
             (update_chat st k
                (\<lambda>c. c\<lparr>children :=
                          [\<lparr>elem_id = [], className = [], innerHTML = small_inner t\<rparr>]\<rparr>),
              Inr ())
           else (st, Inl Unmodelled)))"

text \<open>A handler that uses \<open>el\<close> as the container of message nodes. When the sender id
  names a child of a block instead of a block, the handler works inside that
  paragraph, which the document does not represent.\<close>

definition in_view :: "state \<Rightarrow> ref \<Rightarrow> (nat \<Rightarrow> unit outcome) \<Rightarrow> unit outcome" where
  "in_view st el f = (case el of RView k \<Rightarrow> f k | RNode k i \<Rightarrow> (st, Inl Unmodelled))"

subsection \<open>The receive handler: \<open>dataConnection.on('data')\<close>\<close>

text \<open>\<open>case MessageDataEvent.RSAKeyShare\<close>; \<open>iv\<close> and \<open>key\<close> are what
  \<open>crypto.getRandomValues\<close> and \<open>generateKey\<close> return.\<close>

definition onRSAKeyShare :: "platform \<Rightarrow> state \<Rightarrow> MessageData \<Rightarrow> bytes \<times> bytes \<Rightarrow> unit outcome" where
  "onRSAKeyShare P st md fresh =
     (let iv = fst fresh; key = snd fresh;
          st1 = st\<lparr>aesKeys := (aesKeys st)(md_from md \<mapsto> (iv, key))\<rparr>
      in case importRSAKey P (md_body md) of
           Inl e \<Rightarrow> (st1, Inl e)
         | Inr pub \<Rightarrow>
             (case rsa_encrypt P pub key of
                None \<Rightarrow> (st1, Inl OperationError)
              | Some w \<Rightarrow>
                  (send st1 (md_from md)
                     ((control st1 [] AESKeyShare)\<lparr>md_body := stringify_pair iv w\<rparr>),
                   Inr ())))"

text \<open>\<open>case MessageDataEvent.AESKeyShare\<close>.\<close>

definition onAESKeyShare :: "platform \<Rightarrow> state \<Rightarrow> MessageData \<Rightarrow> unit outcome" where
  "onAESKeyShare P st md =
     (case json_pair P (md_body md) of
        Inl e \<Rightarrow> (st, Inl e)
      | Inr (iv, w) \<Rightarrow>
          (case rsa_decrypt P (snd (keyPair st)) w of
             None \<Rightarrow> (st, Inl OperationError)
           | Some raw \<Rightarrow>
               (case importKey_raw P raw of
                  Inl e \<Rightarrow> (st, Inl e)
                | Inr key \<Rightarrow> (st\<lparr>aesKeys := (aesKeys st)(md_from md \<mapsto> (iv, key))\<rparr>, Inr ()))))"

text \<open>\<open>case MessageDataEvent.Typing\<close>.\<close>

definition onTyping :: "state \<Rightarrow> nat \<Rightarrow> MessageData \<Rightarrow> unit outcome" where
  "onTyping st k md =
     (if lastChild_typing (document st ! k) then (st, Inr ())
      else (update_chat st k
              (appendChild \<lparr>elem_id = md_id md, className = js ''typing'',
                            innerHTML = js ''Typing...''\<rparr>),
            Inr ()))"

text \<open>\<open>case MessageDataEvent.StopTyping\<close>.\<close>

definition onStopTyping :: "state \<Rightarrow> nat \<Rightarrow> unit outcome" where
  "onStopTyping st k = (update_chat st k removeTyping, Inr ())"

text \<open>\<open>case MessageDataEvent.Delivered\<close>. The loop
  \<open>for (i = el.children.length - 1; i >= 0; i--)\<close> leaves \<open>i = -1\<close> when no child
  matches; \<open>el.children[-1]\<close> is \<open>undefined\<close> and reading its \<open>innerHTML\<close>
  throws. The third argument of \<open>find_undelivered\<close> is \<open>i + 1\<close>.\<close>

fun find_undelivered :: "element list \<Rightarrow> jsstring \<Rightarrow> nat \<Rightarrow> int" where
  "find_undelivered cs x 0 = - 1"
| "find_undelivered cs x (Suc i) =
     (if elem_id (cs ! i) = x \<and> \<not> endsWith (innerHTML (cs ! i)) delivered_mark then int i
      else find_undelivered cs x i)"

definition onDelivered :: "state \<Rightarrow> nat \<Rightarrow> MessageData \<Rightarrow> unit outcome" where
  "onDelivered st k md =
     (let cs = children (document st ! k);
          i = find_undelivered cs (md_id md) (length cs)
      in if i < 0 then (st, Inl TypeError)
         else (update_chat st k
                 (set_child_html (nat i) (innerHTML (cs ! nat i) @ delivered_mark)),
               Inr ()))"

text \<open>\<open>case MessageDataEvent.Edit\<close>. The target is looked up in the whole document.
  The right-hand side is evaluated before the assignment dereferences the target, so
  a missing key, a parse error or a failed decryption surface first.\<close>

definition onEdit :: "platform \<Rightarrow> state \<Rightarrow> ref \<Rightarrow> MessageData \<Rightarrow> unit outcome" where
  "onEdit P st el md =
     (let target = getElementById (document st) (md_id md)
      in case decrypt_text P st (md_from md) (md_body md) of
           (st1, Inl e) \<Rightarrow> (st1, Inl e)
         | (st1, Inr text) \<Rightarrow>
             (case target of
                None \<Rightarrow> (st1, Inl TypeError)
              | Some r \<Rightarrow>
                  (case set_innerHTML st1 r text (md_time md) of
                     (st2, Inl e) \<Rightarrow> (st2, Inl e)
                   | (st2, Inr u) \<Rightarrow>
                       in_view st2 el
                         (\<lambda>k. (send (update_chat st2 k removeTyping) (md_from md)
                                  (control st2 (md_id md) Delivered),
                                Inr ())))))"

text \<open>The \<open>default\<close> case: a plain message.\<close>

definition onMessage :: "platform \<Rightarrow> state \<Rightarrow> ref \<Rightarrow> MessageData \<Rightarrow> unit outcome" where
  "onMessage P st el md =
     (case decrypt_text P st (md_from md) (md_body md) of
        (st1, Inl e) \<Rightarrow> (st1, Inl e)
      | (st1, Inr text) \<Rightarrow>
          in_view st1 el
            (\<lambda>k. (let st2 = update_chat st1 k removeTyping;
                       st3 = send st2 (md_from md) (control st2 (md_id md) Delivered)
                   in update_chat st3 k
                        (appendChild \<lparr>elem_id = md_id md, className = js ''received'',
                                      innerHTML = text @ time_suffix (md_time md)\<rparr>),
                   Inr ())))"

definition dispatch :: "platform \<Rightarrow> state \<Rightarrow> ref \<Rightarrow> MessageData \<Rightarrow> bytes \<times> bytes \<Rightarrow> unit outcome" where
  "dispatch P st el md fresh =
     (case md_event md of
        Some RSAKeyShare \<Rightarrow> onRSAKeyShare P st md fresh
      | Some AESKeyShare \<Rightarrow> onAESKeyShare P st md
      | Some Typing \<Rightarrow> in_view st el (\<lambda>k. onTyping st k md)
      | Some StopTyping \<Rightarrow> in_view st el (\<lambda>k. onStopTyping st k)
      | Some Delivered \<Rightarrow> in_view st el (\<lambda>k. onDelivered st k md)
      | Some Edit \<Rightarrow> onEdit P st el md
      | None \<Rightarrow> onMessage P st el md)"

text \<open>The handler: find the element with the sender's id, create the chat when there is
  none, then switch on the event.\<close>

definition onData :: "platform \<Rightarrow> state \<Rightarrow> MessageData \<Rightarrow> bytes \<times> bytes \<Rightarrow> unit outcome" where
  "onData P st md fresh =
     (case getElementById (document st) (md_from md) of
        Some el \<Rightarrow> dispatch P st el md fresh
      | None \<Rightarrow>
          (case createChat st (md_from md) False of
             (st1, Inl e) \<Rightarrow> (st1, Inl e)
           | (st1, Inr el) \<Rightarrow> dispatch P st1 el md fresh))"

subsection \<open>Sending: the \<open>conn.on('open')\<close> callback of \<open>send\<close>\<close>

text \<open>The local echo of an \<open>Edit\<close>: the element named by the global \<open>editing\<close>
  (\<open>undefined\<close> is looked up as the string \<open>"undefined"\<close>).\<close>

definition echoEdit :: "platform \<Rightarrow> state \<Rightarrow> jsstring \<Rightarrow> MessageData \<Rightarrow> unit outcome" where
  "echoEdit P st to md =
     (let target = getElementById (document st)
                     (case editing st of Some e \<Rightarrow> e | None \<Rightarrow> js ''undefined'')
      in case decrypt_text P st to (md_body md) of
           (st1, Inl e) \<Rightarrow> (st1, Inl e)
         | (st1, Inr text) \<Rightarrow>
             (case target of
                None \<Rightarrow> (st1, Inl TypeError)
              | Some r \<Rightarrow> set_innerHTML st1 r text (md_time md)))"

text \<open>The \<open>default\<close> case of the echo: a new \<open>sent\<close> node, inserted before a
  trailing typing indicator, else appended. The body of a \<open>Delivered\<close> envelope is
  shown as it is.\<close>

definition insertSent :: "state \<Rightarrow> jsstring \<Rightarrow> element \<Rightarrow> unit outcome" where
  "insertSent st to paragraph =
     (case getElementById (document st) to of
        None \<Rightarrow> (st, Inl TypeError)
      | Some el \<Rightarrow>
          in_view st el
            (\<lambda>k. (if lastChild_typing (document st ! k)
                   then update_chat st k (insertBeforeLast paragraph)
                   else update_chat st k (appendChild paragraph),
                   Inr ())))"

definition echoMessage :: "platform \<Rightarrow> state \<Rightarrow> jsstring \<Rightarrow> MessageData \<Rightarrow> unit outcome" where
  "echoMessage P st to md =
     (case (if md_event md \<noteq> Some Delivered then decrypt_text P st to (md_body md)
            else (st, Inr (md_body md))) of
        (st1, Inl e) \<Rightarrow> (st1, Inl e)
      | (st1, Inr text) \<Rightarrow>
          insertSent st1 to
            \<lparr>elem_id = md_id md, className = js ''sent'',
             innerHTML = text @ time_suffix (md_time md)\<rparr>)"

definition echo :: "platform \<Rightarrow> state \<Rightarrow> jsstring \<Rightarrow> MessageData \<Rightarrow> unit outcome" where
  "echo P st to md =
     (case md_event md of
        Some RSAKeyShare \<Rightarrow> (st, Inr ())
      | Some AESKeyShare \<Rightarrow> (st, Inr ())
      | Some Typing \<Rightarrow> (st, Inr ())
      | Some StopTyping \<Rightarrow> (st, Inr ())
      | Some Edit \<Rightarrow> echoEdit P st to md
      | Some Delivered \<Rightarrow> echoMessage P st to md
      | None \<Rightarrow> echoMessage P st to md)"

text \<open>The callback transmits, echoes, and clears both cursors; an exception in the
  echo leaves the cursors as they were.\<close>

definition onOpen :: "platform \<Rightarrow> state \<Rightarrow> jsstring \<Rightarrow> MessageData \<Rightarrow> unit outcome" where
  "onOpen P st to md =
     (case echo P (st\<lparr>wire := wire st @ [(to, md)]\<rparr>) to md of
        (st1, Inl e) \<Rightarrow> (st1, Inl e)
      | (st1, Inr u) \<Rightarrow> (st1\<lparr>replying := None, editing := None\<rparr>, Inr ()))"

subsection \<open>The input box: \<open>sendBar.onkeydown\<close>\<close>

datatype key = Enter | Backspace | OtherKey

text \<open>\<open>k\<close> is the chat block of the input box, \<open>now\<close> and \<open>uuid\<close> are what
  \<open>new Date().toLocaleTimeString()\<close> and \<open>crypto.randomUUID()\<close> return.\<close>

definition onkeydown :: "platform \<Rightarrow> state \<Rightarrow> nat \<Rightarrow> key \<Rightarrow> jsstring \<Rightarrow> jsstring \<Rightarrow> unit outcome" where
  "onkeydown P st k ky now uuid =
     (let c = document st ! k; to = view_id c in
      if ky = Enter then
        (case encrypt_value P st to (utf8_encode P (sendBar c)) of
           Inl e \<Rightarrow> (st, Inl e)
         | Inr v \<Rightarrow>
             (let body = input_value v;
                  st1 = update_chat st k (\<lambda>c. c\<lparr>sendBar := body\<rparr>);
                  md = (if truthy (editing st1) then
                          \<lparr>md_from = peer_id st1, md_body = body,
                           md_time = js ''edited at '' @ now,
                           md_id = (case editing st1 of Some e \<Rightarrow> e | None \<Rightarrow> []),
                           md_event = Some Edit, md_prev = replying st1\<rparr>
                        else
                          \<lparr>md_from = peer_id st1, md_body = body, md_time = now,
                           md_id = uuid, md_event = None, md_prev = replying st1\<rparr>);
                  st2 = send st1 to md;
                  st3 = update_chat st2 k (\<lambda>c. c\<lparr>sendBar := []\<rparr>)
              in (st3\<lparr>replying := None\<rparr>, Inr ())))
      else if sendBar c = [] \<and> ky \<noteq> Backspace then
        (send st to (control st [] Typing), Inr ())
      else if length (sendBar c) = 1 \<and> ky = Backspace then
        (send st to (control st [] StopTyping), Inr ())
      else (st, Inr ()))"

subsection \<open>Click and double click on a sent node\<close>

text \<open>\<open>paragraph.onclick\<close>: the node at position \<open>i\<close> of block \<open>k\<close>. The last
  statement, \<open>paragraph.parentNode.nextSibling.focus()\<close>, reaches the input box of a
  chat block; next to an element of the page it reaches what the page holds there.\<close>

definition onclick :: "state \<Rightarrow> nat \<Rightarrow> nat \<Rightarrow> unit outcome" where
  "onclick st k i =
     (let st1 = st\<lparr>replying := Some (elem_id (children (document st ! k) ! i))\<rparr>
      in if page_element (document st ! k) then (st1, Inl Unmodelled) else (st1, Inr ()))"

text \<open>\<open>s.replace(/ (<small>){3}<i>X<\/i>(<\/small>){3}$/g, new)\<close>: the pattern is a
  fixed string anchored at the end.\<close>

definition replace_tail :: "jsstring \<Rightarrow> jsstring \<Rightarrow> jsstring \<Rightarrow> jsstring" where
  "replace_tail s old new =
     (if endsWith s old then take (length s - length old) s @ new else s)"

text \<open>
  \<open>s.replace(/( (<small>){3}<i>.*<\/i>(<\/small>){3})+$/g, '')\<close>. The dot matches
  every code unit but a line terminator, so a repetition of groups is also a single
  group; the match starts at the leftmost position from which the rest of the string
  is one group.
\<close>

definition line_terminator :: "16 word \<Rightarrow> bool" where
  "line_terminator c = (c = 10 \<or> c = 13 \<or> c = 0x2028 \<or> c = 0x2029)"

definition suffix_group :: "jsstring \<Rightarrow> bool" where
  "suffix_group r =
     (length small_open + length small_close \<le> length r
      \<and> take (length small_open) r = small_open
      \<and> endsWith r small_close
      \<and> \<not> list_ex line_terminator
            (take (length r - length small_open - length small_close)
               (drop (length small_open) r)))"

fun strip_suffixes :: "jsstring \<Rightarrow> jsstring" where
  "strip_suffixes [] = []"
| "strip_suffixes (c # s) = (if suffix_group (c # s) then [] else c # strip_suffixes s)"

text \<open>
  \<open>paragraph.ondblclick\<close>. The statements run in the order of the source:
  \<open>replying\<close> is cleared, the mark of the node that was being edited is put back,
  \<open>editing\<close> is set to this node, and only then the delivered mark is tested.
  \<open>restore_previous\<close> is the \<open>if (editing) {...}\<close> statement: \<open>prev\<close> is looked
  up in the whole document and its \<open>innerHTML\<close> is assigned in every case, changed
  or not. When \<open>prev\<close> is a block, the assignment parses the whole view again and
  replaces its children, which is not followed.
\<close>

definition restore_previous :: "state \<Rightarrow> unit outcome" where
  "restore_previous st =
     (if truthy (editing st) then
        (case getElementById (document st) (case editing st of Some e \<Rightarrow> e | None \<Rightarrow> []) of
           None \<Rightarrow> (st, Inl TypeError)
         | Some (RView k) \<Rightarrow> (st, Inl Unmodelled)
         | Some (RNode k i) \<Rightarrow>
             (update_chat st k
                (\<lambda>c. set_child_html i
                        (replace_tail (innerHTML (children c ! i)) editing_mark delivered_mark)
                        c),
              Inr ()))
      else (st, Inr ()))"

definition ondblclick :: "state \<Rightarrow> nat \<Rightarrow> nat \<Rightarrow> unit outcome" where
  "ondblclick st k i =
     (case restore_previous (st\<lparr>replying := None\<rparr>) of
        (st1, Inl e) \<Rightarrow> (st1, Inl e)
      | (st1, Inr u) \<Rightarrow>
          (let paragraph = children (document st1 ! k) ! i;
               st2 = st1\<lparr>editing := Some (elem_id paragraph)\<rparr>
           in if endsWith (innerHTML paragraph) delivered_mark then
                (let h = replace_tail (innerHTML paragraph) delivered_mark editing_mark;
                     st3 = update_chat st2 k (set_child_html i h)
                 in if page_element (document st3 ! k) then (st3, Inl Unmodelled)
                    else (update_chat st3 k
                            (\<lambda>c. c\<lparr>sendBar := input_value (strip_suffixes h)\<rparr>),
                          Inr ()))
              else (st2, Inl (Error (js ''Cannot Edit Non-Delivered Message.'')))))"

subsection \<open>Runs of the client\<close>

text \<open>
  The events a client reacts to: an envelope arrives (with the random values an
  \<open>RSAKeyShare\<close> would draw), the channel of a pending \<open>send\<close> opens or fails, the
  user starts a chat, presses a key in an input box, changes its text, clicks or
  double-clicks a sent node. Clicks exist only on nodes that \<open>send\<close> created, which
  are the nodes of class \<open>sent\<close>, and input boxes only in chat blocks. \<open>react\<close> is
  the handler that an event starts, \<open>step\<close> the state it leaves.
\<close>

datatype event =
    Receive MessageData "bytes \<times> bytes"
  | ChannelOpen nat
  | ChannelError nat
  | CreateChat jsstring
  | KeyDown nat key jsstring jsstring
  | Input nat jsstring
  | Click nat nat
  | DblClick nat nat

definition remove_nth :: "nat \<Rightarrow> 'a list \<Rightarrow> 'a list" where
  "remove_nth n xs = take n xs @ drop (Suc n) xs"

definition sent_node :: "state \<Rightarrow> nat \<Rightarrow> nat \<Rightarrow> bool" where
  "sent_node st k i =
     (k < length (document st) \<and> i < length (children (document st ! k))
      \<and> className (children (document st ! k) ! i) = js ''sent'')"

fun react :: "platform \<Rightarrow> state \<Rightarrow> event \<Rightarrow> unit outcome" where
  "react P st (Receive md fresh) = onData P st md fresh"
| "react P st (ChannelOpen n) =
     (if n < length (pending st)
      then onOpen P (st\<lparr>pending := remove_nth n (pending st)\<rparr>)
             (fst (pending st ! n)) (snd (pending st ! n))
      else (st, Inr ()))"
| "react P st (ChannelError n) = (st\<lparr>pending := remove_nth n (pending st)\<rparr>, Inr ())"
| "react P st (CreateChat to) =
     (case createChat st to True of
        (st1, Inl e) \<Rightarrow> (st1, Inl e)
      | (st1, Inr el) \<Rightarrow> (st1, Inr ()))"
| "react P st (KeyDown k ky now uuid) =
     (if k < length (document st) \<and> \<not> page_element (document st ! k)
      then onkeydown P st k ky now uuid else (st, Inr ()))"
| "react P st (Input k s) =
     (if k < length (document st) \<and> \<not> page_element (document st ! k)
      then (update_chat st k (\<lambda>c. c\<lparr>sendBar := input_value s\<rparr>), Inr ())
      else (st, Inr ()))"
| "react P st (Click k i) = (if sent_node st k i then onclick st k i else (st, Inr ()))"
| "react P st (DblClick k i) = (if sent_node st k i then ondblclick st k i else (st, Inr ()))"

definition step :: "platform \<Rightarrow> state \<Rightarrow> event \<Rightarrow> state" where
  "step P st ev = fst (react P st ev)"

fun run :: "platform \<Rightarrow> state \<Rightarrow> event list \<Rightarrow> state" where
  "run P st [] = st"
| "run P st (ev # evs) = run P (step P st ev) evs"

text \<open>A run that the document follows all the way: every state on it is plain and no
  handler ends with \<open>Unmodelled\<close>.\<close>

fun tracked :: "platform \<Rightarrow> state \<Rightarrow> event list \<Rightarrow> bool" where
  "tracked P st [] = plain st"
| "tracked P st (ev # evs) =
     (plain st \<and> snd (react P st ev) \<noteq> Inl Unmodelled \<and> tracked P (step P st ev) evs)"

text \<open>The state after the script has loaded: no chat, no key, no cursor; \<open>page\<close> are
  the elements of the page that carry an id.\<close>

definition initial :: "jsstring \<Rightarrow> bytes \<times> bytes \<Rightarrow> chat list \<Rightarrow> state" where
  "initial pid kp page =
     \<lparr>peer_id = pid, keyPair = kp, aesKeys = Map.empty, editing = None, replying = None,
      document = page, pending = [], wire = [], decrypt_calls = [], keyless_calls = []\<rparr>"

subsection \<open>Typing indicators in a view\<close>

definition is_typing :: "element \<Rightarrow> bool" where
  "is_typing n = (className n = js ''typing'')"


text \<open>No typing indicator before the last child.\<close>

definition typing_last :: "chat \<Rightarrow> bool" where
  "typing_last c = list_all (\<lambda>n. \<not> is_typing n) (butlast (children c))"

text \<open>The same for every view of the document.\<close>

definition views_ok :: "state \<Rightarrow> bool" where
  "views_ok st = list_all typing_last (document st)"

subsection \<open>Concrete inputs\<close>

text \<open>A toy platform, to evaluate the handlers at concrete inputs: the ciphers shift or
  reverse the bytes, every key is importable, text is Latin-1, and the inherited
  names are those of ECMA-262 for \<open>Object.prototype\<close> and a few of an array.\<close>

definition toy_platform :: platform where
  "toy_platform =
     \<lparr>aes_encrypt = (\<lambda>iv key m. Some (map (\<lambda>b. b + 1) m)),
      aes_decrypt = (\<lambda>iv key c. Some (map (\<lambda>b. b - 1) c)),
      rsa_encrypt = (\<lambda>pub m. Some (rev m)),
      rsa_decrypt = (\<lambda>priv c. Some (rev c)),
      valid_spki = (\<lambda>bs. True),
      valid_raw = (\<lambda>bs. True),
      utf8_encode = map ucast,
      utf8_decode = map ucast,
      json_bytes_other = (\<lambda>s. Inl SyntaxError),
      json_pair_other = (\<lambda>s. Inl SyntaxError),
      object_property = (\<lambda>s. s \<in> set (map js
        [''constructor'', ''__proto__'', ''hasOwnProperty'', ''isPrototypeOf'',
         ''propertyIsEnumerable'', ''toLocaleString'', ''toString'', ''valueOf'',
         ''__defineGetter__'', ''__defineSetter__'', ''__lookupGetter__'',
         ''__lookupSetter__''])),
      array_property = (\<lambda>s. s \<in> set (map js [''0'', ''1'', ''length'', ''push'', ''pop'']))\<rparr>"

definition header :: "jsstring \<Rightarrow> element" where
  "header to = \<lparr>elem_id = [], className = [], innerHTML = to\<rparr>"

definition typing_node :: element where
  "typing_node = \<lparr>elem_id = [], className = js ''typing'', innerHTML = js ''Typing...''\<rparr>"

text \<open>Peer \<open>alice\<close> with one chat, for peer \<open>bob\<close>, in which nothing has been said.\<close>

definition alice :: state where
  "alice =
     (initial (js ''alice'') ([1, 2, 3], [4, 5, 6]) [])
       \<lparr>document := [\<lparr>view_id = js ''bob'', summary = js ''alice'',
                       children = [header (js ''bob'')], sendBar = [], page_element = False\<rparr>]\<rparr>"

definition envelope :: "jsstring \<Rightarrow> jsstring \<Rightarrow> MessageDataEvent option \<Rightarrow> MessageData" where
  "envelope sender i ev =
     \<lparr>md_from = sender, md_body = [], md_time = [], md_id = i, md_event = ev,
      md_prev = None\<rparr>"

text \<open>\<open>alice\<close> after a key exchange with \<open>bob\<close> and with a second chat, for
  \<open>carol\<close>, that shows one sent message \<open>m1\<close>.\<close>

definition hello :: element where
  "hello = \<lparr>elem_id = js ''m1'', className = js ''sent'',
            innerHTML = js ''hello'' @ time_suffix (js ''10:00'')\<rparr>"

definition alice_two_chats :: state where
  "alice_two_chats =
     alice\<lparr>aesKeys := [js ''bob'' \<mapsto> ([7], [9])],
           document := document alice @
             [\<lparr>view_id = js ''carol'', summary = js ''alice'',
               children = [header (js ''carol''), hello], sendBar = [], page_element = False\<rparr>]\<rparr>"

text \<open>The element of the page with the id \<open>id\<close>, into which the client writes the
  user's own id as text; it has no child elements.\<close>

definition id_element :: chat where
  "id_element =
     \<lparr>view_id = js ''id'', summary = [], children = [], sendBar = [], page_element = True\<rparr>"

text \<open>The same on a page with that element, while \<open>bob\<close> is typing.\<close>

definition alice_bob_typing :: state where
  "alice_bob_typing =
     alice_two_chats\<lparr>document :=
       [id_element,
        \<lparr>view_id = js ''bob'', summary = js ''alice'',
         children = [header (js ''bob''), typing_node], sendBar = [], page_element = False\<rparr>,
        \<lparr>view_id = js ''carol'', summary = js ''alice'',
         children = [header (js ''carol''), hello], sendBar = [], page_element = False\<rparr>]\<rparr>"

text \<open>\<open>alice\<close> with a message \<open>m1\<close> sent to \<open>bob\<close> and not acknowledged yet, about to
  reply to \<open>m0\<close>.\<close>

definition alice_unacked :: state where
  "alice_unacked =
     alice\<lparr>replying := Some (js ''m0''),
           document := [\<lparr>view_id = js ''bob'', summary = js ''alice'',
                          children = [header (js ''bob''), hello], sendBar = [], page_element = False\<rparr>]\<rparr>"

text \<open>The same after the acknowledgement.\<close>

definition alice_acked :: state where
  "alice_acked =
     alice\<lparr>document := [\<lparr>view_id = js ''bob'', summary = js ''alice'',
                          children = [header (js ''bob''),
                                      hello\<lparr>innerHTML := innerHTML hello @ delivered_mark\<rparr>],
                          sendBar = [], page_element = False\<rparr>]\<rparr>"

text \<open>
  \<open>alice\<close> in the middle of editing the earlier message \<open>m0\<close>, to which she was
  also about to reply: \<open>m0\<close> carries the editing mark. The later message \<open>m1\<close> is
  acknowledged in \<open>alice_editing\<close> and not yet in \<open>alice_editing_unacked\<close>.
\<close>

definition earlier :: element where
  "earlier = \<lparr>elem_id = js ''m0'', className = js ''sent'',
              innerHTML = js ''first'' @ time_suffix (js ''09:59'') @ editing_mark\<rparr>"

definition alice_editing :: state where
  "alice_editing =
     alice\<lparr>editing := Some (js ''m0''), replying := Some (js ''m0''),
           document := [\<lparr>view_id = js ''bob'', summary = js ''alice'',
                          children = [header (js ''bob''), earlier,
                                      hello\<lparr>innerHTML := innerHTML hello @ delivered_mark\<rparr>],
                          sendBar = [], page_element = False\<rparr>]\<rparr>"

definition alice_editing_unacked :: state where
  "alice_editing_unacked =
     alice\<lparr>editing := Some (js ''m0''), replying := Some (js ''m0''),
           document := [\<lparr>view_id = js ''bob'', summary = js ''alice'',
                          children = [header (js ''bob''), earlier, hello],
                          sendBar = [], page_element = False\<rparr>]\<rparr>"

text \<open>An \<open>Edit\<close> envelope from \<open>bob\<close> naming \<open>m1\<close>; the body is the JSON text of
  two ciphertext bytes.\<close>

definition edit_m1 :: MessageData where
  "edit_m1 = \<lparr>md_from = js ''bob'', md_body = js ''[105,106]'', md_time = js ''edited at 10:05'',
              md_id = js ''m1'', md_event = Some Edit, md_prev = None\<rparr>"

text \<open>\<open>alice\<close> with a key for \<open>bob\<close> while \<open>bob\<close> is typing, and the plain message
  \<open>m2\<close> that \<open>bob\<close> then sends.\<close>

definition alice_typing :: state where
  "alice_typing =
     alice\<lparr>aesKeys := [js ''bob'' \<mapsto> ([7], [9])],
           document := [\<lparr>view_id = js ''bob'', summary = js ''alice'',
                          children = [header (js ''bob''), typing_node], sendBar = [], page_element = False\<rparr>]\<rparr>"








text \<open>Peer \<open>bob\<close>, freshly started, and \<open>bob\<close> holding the key that
  \<open>alice_typing\<close> holds for him.\<close>

definition bob :: state where
  "bob = initial (js ''bob'') ([11, 12], [13, 14]) []"

definition bob_keyed :: state where
  "bob_keyed = bob\<lparr>aesKeys := [js ''alice'' \<mapsto> ([7], [9])]\<rparr>"

text \<open>An \<open>Edit\<close> envelope whose sender id is \<open>constructor\<close>, a name that every
  JavaScript object inherits.\<close>

definition edit_constructor :: MessageData where
  "edit_constructor =
     \<lparr>md_from = js ''constructor'', md_body = js ''[105,106]'', md_time = js ''10:07'',
      md_id = js ''m1'', md_event = Some Edit, md_prev = None\<rparr>"


section \<open>Properties\<close>

subsection \<open>Base64 and the PEM text of a public key\<close>

lemma sextet_bounds:
  fixes a b c :: nat
  shows "a < 256 \<Longrightarrow> a div 4 < 64"
    and "b < 256 \<Longrightarrow> b div 16 < 16"
    and "c < 256 \<Longrightarrow> c div 64 < 4"
  by (simp_all add: less_mult_imp_div_less)

lemma sextet_arith:
  fixes a b c x :: nat
  shows "b < 256 \<Longrightarrow> (x * 16 + b div 16) div 16 = x"
    and "b < 256 \<Longrightarrow> (x * 16 + b div 16) mod 16 = b div 16"
    and "c < 256 \<Longrightarrow> (x * 4 + c div 64) div 4 = x"
    and "c < 256 \<Longrightarrow> (x * 4 + c div 64) mod 4 = c div 64"
    and "x * 16 div 16 = x"
    and "x * 4 div 4 = x"
    and "a div 4 * 4 + a mod 4 = a"
    and "b div 16 * 16 + b mod 16 = b"
    and "c div 64 * 64 + c mod 64 = c"
  by (simp_all add: sextet_bounds)

lemma decode_encode_group1: "decode_groups (encode_groups [a]) = [a]"
  by (simp only: encode_groups.simps decode_groups.simps sextet_arith)

lemma decode_encode_group2:
  "b < 256 \<Longrightarrow> decode_groups (encode_groups [a, b]) = [a, b]"
  by (simp only: encode_groups.simps decode_groups.simps sextet_arith)

lemma decode_encode_group3:
  "b < 256 \<Longrightarrow> c < 256 \<Longrightarrow>
   decode_groups (encode_groups (a # b # c # r)) = a # b # c # decode_groups (encode_groups r)"
  by (simp only: encode_groups.simps decode_groups.simps sextet_arith append.simps)

lemma decode_encode_groups:
  "\<forall>b\<in>set bs. b < 256 \<Longrightarrow> decode_groups (encode_groups bs) = bs"
proof (induction bs rule: encode_groups.induct)
  case (2 a)
  show ?case by (rule decode_encode_group1)
next
  case (3 a b)
  then show ?case by (simp only: decode_encode_group2 list.set insert_iff ball_simps)
next
  case (4 a b c r)
  then have "b < 256" "c < 256" "decode_groups (encode_groups r) = r" by simp_all
  then show ?case by (simp only: decode_encode_group3)
qed simp

lemma encode_groups_bound:
  "\<forall>b\<in>set bs. b < 256 \<Longrightarrow> \<forall>v\<in>set (encode_groups bs). v < 64"
proof (induction bs rule: encode_groups.induct)
  case (2 a)
  have "a mod 4 < 4" by simp
  then have "a mod 4 * 16 < 64" by linarith
  moreover have "a div 4 < 64" using 2 by (simp add: sextet_bounds)
  ultimately show ?case by simp
next
  case (3 a b)
  have "a mod 4 < 4" "b mod 16 < 16" by simp_all
  moreover have "b div 16 < 16" using 3 by (simp add: sextet_bounds)
  ultimately have "a mod 4 * 16 + b div 16 < 64" "b mod 16 * 4 < 64" by linarith+
  moreover have "a div 4 < 64" using 3 by (simp add: sextet_bounds)
  ultimately show ?case by simp
next
  case (4 a b c r)
  have "a mod 4 < 4" "b mod 16 < 16" by simp_all
  moreover have "b div 16 < 16" "c div 64 < 4" using 4(2) by (simp_all add: sextet_bounds)
  ultimately have "a mod 4 * 16 + b div 16 < 64" "b mod 16 * 4 + c div 64 < 64" by linarith+
  moreover have "a div 4 < 64" using 4(2) by (simp add: sextet_bounds)
  ultimately show ?case using 4 by simp
qed simp

lemma length_encode_groups:
  "length (encode_groups bs) = 4 * (length bs div 3) + (if length bs mod 3 = 0 then 0 else length bs mod 3 + 1)"
proof (induction bs rule: encode_groups.induct)
  case (4 a b c r)
  have "(3 + length r) div 3 = Suc (length r div 3)" "(3 + length r) mod 3 = length r mod 3"
    by (simp_all add: div_add_self1 )
  with 4 show ?case by simp
qed simp_all


lemma unat_of_nat16: "k < 65536 \<Longrightarrow> unat (word_of_nat k :: 16 word) = k"
  by (simp add: unat_of_nat take_bit_nat_eq_self)

lemma unat_b64_char:
  "n < 26 \<Longrightarrow> unat (b64_char n) = 65 + n"
  "26 \<le> n \<Longrightarrow> n < 52 \<Longrightarrow> unat (b64_char n) = 71 + n"
  "52 \<le> n \<Longrightarrow> n < 62 \<Longrightarrow> unat (b64_char n) = n - 4"
  "n = 62 \<Longrightarrow> unat (b64_char n) = 43"
  "63 \<le> n \<Longrightarrow> unat (b64_char n) = 47"
  unfolding b64_char_def
  using unat_of_nat16 [of "65 + n"] unat_of_nat16 [of "71 + n"] unat_of_nat16 [of "n - 4"]
  by (simp_all del: of_nat_add of_nat_diff)

lemma b64_char_cases:
  obtains "n < 26" "unat (b64_char n) = 65 + n"
  | "26 \<le> n" "n < 52" "unat (b64_char n) = 71 + n"
  | "52 \<le> n" "n < 62" "unat (b64_char n) = n - 4"
  | "n = 62" "unat (b64_char n) = 43"
  | "63 \<le> n" "unat (b64_char n) = 47"
proof -
  consider "n < 26" | "26 \<le> n \<and> n < 52" | "52 \<le> n \<and> n < 62" | "n = 62" | "63 \<le> n"
    by linarith
  then show thesis
    using that unat_b64_char [of n] by cases simp_all
qed

lemma b64_value_char: "n < 64 \<Longrightarrow> b64_value (b64_char n) = Some n"
  by (cases n rule: b64_char_cases) (auto simp: b64_value_def Let_def)

lemma b64_char_not_pad: "b64_char n \<noteq> 61"
proof
  assume "b64_char n = 61"
  then have "unat (b64_char n) = 61" by simp
  then show False by (cases n rule: b64_char_cases) simp_all
qed

lemma b64_char_not_ws: "\<not> ascii_whitespace (b64_char n)"
proof
  assume "ascii_whitespace (b64_char n)"
  then have "unat (b64_char n) < 43"
    unfolding ascii_whitespace_def by (elim disjE) simp_all
  then show False by (cases n rule: b64_char_cases) simp_all
qed

lemma those_b64_value:
  "\<forall>v\<in>set vs. v < 64 \<Longrightarrow> those (map b64_value (map b64_char vs)) = Some vs"
  by (induction vs) (simp_all add: b64_value_char)

lemma filter_ws_encoded:
  "filter (\<lambda>c. \<not> ascii_whitespace c) (map b64_char vs @ replicate p 61) =
     map b64_char vs @ replicate p 61"
proof (rule filter_True, rule ballI)
  fix x assume "x \<in> set (map b64_char vs @ replicate p 61)"
  then consider n where "x = b64_char n" | "x = 61" by auto
  then show "\<not> ascii_whitespace x"
  proof cases
    case 1 then show ?thesis by (simp add: b64_char_not_ws)
  next
    case 2 then show ?thesis by (simp add: ascii_whitespace_def)
  qed
qed

lemma strip_padding_0:
  assumes "61 \<notin> set e" and "length e mod 4 = 0"
  shows "strip_padding e = e"
proof (cases e rule: rev_cases)
  case Nil
  then show ?thesis by (simp add: strip_padding_def)
next
  case (snoc ys y)
  then have y: "y \<noteq> 61" using assms(1) by auto
  have "drop (length e - 2) e \<noteq> [61, 61]"
  proof
    assume "drop (length e - 2) e = [61, 61]"
    then have "last (drop (length e - 2) e) = 61" by simp
    moreover have "last (drop (length e - 2) e) = y" using snoc by simp
    ultimately show False using y by simp
  qed
  moreover have "last e \<noteq> 61" using snoc y by simp
  ultimately show ?thesis unfolding strip_padding_def by simp
qed

lemma strip_padding_1:
  assumes "61 \<notin> set e" and "(length e + 1) mod 4 = 0"
  shows "strip_padding (e @ [61]) = e"
proof (cases e rule: rev_cases)
  case Nil
  then show ?thesis using assms(2) by simp
next
  case (snoc ys y)
  then have y: "y \<noteq> 61" using assms(1) by auto
  have len: "length (e @ [61]) mod 4 = 0" using assms(2) by simp
  have "drop (length (e @ [61]) - 2) (e @ [61]) = [y, 61]" using snoc by simp
  then have "drop (length (e @ [61]) - 2) (e @ [61]) \<noteq> [61, 61]" using y by simp
  moreover have "last (e @ [61]) = 61" "butlast (e @ [61]) = e" "1 \<le> length (e @ [61])"
    by simp_all
  ultimately show ?thesis unfolding strip_padding_def using len by presburger
qed

lemma strip_padding_2:
  assumes "(length e + 2) mod 4 = 0"
  shows "strip_padding (e @ [61, 61]) = e"
proof -
  have len: "length (e @ [61, 61]) mod 4 = 0" using assms by simp
  have "drop (length (e @ [61, 61]) - 2) (e @ [61, 61]) = [61, 61]" by simp
  moreover have "take (length (e @ [61, 61]) - 2) (e @ [61, 61]) = e" by simp
  moreover have "2 \<le> length (e @ [61, 61])" by simp
  ultimately show ?thesis unfolding strip_padding_def using len by presburger
qed

lemma unat_byte_less: "unat (b :: 8 word) < 256"
proof -
  have "unat b < 2 ^ LENGTH(8)" by (rule unsigned_less)
  then show ?thesis by simp
qed

lemma unat_ucast_byte: "unat (ucast (b :: 8 word) :: 16 word) = unat b"
proof -
  have "unat b < 2 ^ 16" using unat_byte_less [of b] by simp 
  then show ?thesis by (simp add: unsigned_ucast_eq take_bit_nat_eq_self)
qed

lemma ucast_ucast_byte: "(ucast (ucast (b :: 8 word) :: 16 word) :: 8 word) = b"
  by (rule ucast_up_ucast_id) (simp add: is_up)

lemma ucast_byte_le: "\<not> 255 < (ucast (b :: 8 word) :: 16 word)"
proof -
  have "unat (ucast b :: 16 word) \<le> unat (255 :: 16 word)"
    using unat_byte_less [of b] by (simp add: unat_ucast_byte)
  then show ?thesis by (simp add: word_le_nat_alt not_less)
qed

lemma btoa_fromCharCode:
  "btoa (fromCharCode key) =
     Inr (map b64_char (encode_groups (map unat key))
          @ replicate ((3 - length key mod 3) mod 3) 61)"
proof -
  have a: "\<not> list_ex (\<lambda>c. 255 < c) (fromCharCode key)"
    by (simp add: fromCharCode_def list_ex_iff ucast_byte_le)
  have b: "map unat (fromCharCode key) = map unat key"
    by (induction key) (simp_all add: fromCharCode_def unat_ucast_byte)
  have c: "length (fromCharCode key) = length key"
    by (simp add: fromCharCode_def)
  show ?thesis unfolding btoa_def b c using a by simp
qed

lemma strip_padding_groups:
  "strip_padding (map b64_char (encode_groups ns) @ replicate ((3 - length ns mod 3) mod 3) 61)
     = map b64_char (encode_groups ns)"
proof -
  let ?e = "map b64_char (encode_groups ns)"
  have no_pad: "61 \<notin> set ?e" using b64_char_not_pad by auto
  have len: "length ?e = 4 * (length ns div 3)
      + (if length ns mod 3 = 0 then 0 else length ns mod 3 + 1)"
    by (simp add: length_encode_groups)
  consider "length ns mod 3 = 0" | "length ns mod 3 = 1" | "length ns mod 3 = 2"
    by linarith
  then show ?thesis
  proof cases
    case 1
    then have "length ?e mod 4 = 0" using len by simp
    from strip_padding_0 [OF no_pad this] 1 show ?thesis by simp
  next
    case 2
    then have "(length ?e + 2) mod 4 = 0" using len by simp
    from strip_padding_2 [OF this] 2 show ?thesis by (simp add: numeral_2_eq_2)
  next
    case 3
    then have "(length ?e + 1) mod 4 = 0" using len by simp
    from strip_padding_1 [OF no_pad this] 3 show ?thesis by simp
  qed
qed

lemma length_encoded_mod4: "length (encode_groups ns) mod 4 \<noteq> 1"
proof -
  consider "length ns mod 3 = 0" | "length ns mod 3 = 1" | "length ns mod 3 = 2"
    by linarith
  then show ?thesis by cases (simp_all add: length_encode_groups, presburger+)
qed

lemma atob_encoded:
  assumes "\<forall>b\<in>set ns. b < 256"
  shows "atob (10 # map b64_char (encode_groups ns)
                 @ replicate ((3 - length ns mod 3) mod 3) 61) = Inr (map of_nat ns)"
proof -
  let ?e = "map b64_char (encode_groups ns)"
  let ?p = "(3 - length ns mod 3) mod 3"
  have f: "filter (\<lambda>c. \<not> ascii_whitespace c) (10 # ?e @ replicate ?p 61) = ?e @ replicate ?p 61"
    using filter_ws_encoded [of "encode_groups ns" ?p] by (simp add: ascii_whitespace_def)
  have l: "length ?e mod 4 \<noteq> 1" using length_encoded_mod4 [of ns] by simp
  have t: "those (map b64_value ?e) = Some (encode_groups ns)"
    by (rule those_b64_value) (rule encode_groups_bound [OF assms])
  show ?thesis
    unfolding atob_def f strip_padding_groups Let_def
    using l t by (simp add: decode_encode_groups [OF assms])
qed

lemma str2ab_of_bytes: "str2ab (map of_nat (map unat key)) = key"
  by (induction key) (simp_all add: str2ab_def ucast_ucast_byte)

lemma length_pem_markers: "length pem_begin = 26" "length pem_end = 24"
  by (simp_all add: pem_begin_def pem_end_def js_def)

lemma substring_pem:
  "substring (pem_begin @ [10] @ b @ [10] @ pem_end) (int (length pem_begin))
     (int (length (pem_begin @ [10] @ b @ [10] @ pem_end)) - int (length pem_end) - 1)
   = 10 # b"
proof -
  have "nat (1 + int (length b)) = Suc (length b)" by simp
  then show ?thesis
    by (simp add: substring_def Let_def length_pem_markers)
qed

lemma b64_char_ascii: "b64_char n < 128"
proof -
  have "unat (b64_char n) < unat (128 :: 16 word)"
    by (cases n rule: b64_char_cases) simp_all
  then show ?thesis by (simp add: word_less_nat_alt)
qed

lemma pem_markers_ascii:
  "list_all (\<lambda>c. c < 128) pem_begin" "list_all (\<lambda>c. c < 128) pem_end"
  by (simp_all add: pem_begin_def pem_end_def js_def)

lemma pem_round_trip:
  "\<exists>pem. exportRSAKey key = Inr pem
     \<and> list_all (\<lambda>c. c < 128) pem \<and> prefix pem_begin pem \<and> suffix pem_end pem
     \<and> importRSAKey P pem = importKey_spki P key"
proof -
  define b where "b = map b64_char (encode_groups (map unat key))
            @ replicate ((3 - length key mod 3) mod 3) 61"
  define pem where "pem = pem_begin @ [10] @ b @ [10] @ pem_end"
  have e: "exportRSAKey key = Inr pem"
    by (simp add: exportRSAKey_def btoa_fromCharCode pem_def b_def)
  have bound: "\<forall>b\<in>set (map unat key). b < 256"
    using unat_byte_less by auto
  have "atob (10 # b) = Inr (map of_nat (map unat key))"
    unfolding b_def using atob_encoded [OF bound] by (simp del: map_map)
  then have i: "importRSAKey P pem = importKey_spki P key"
    unfolding importRSAKey_def pem_def substring_pem
    by (simp only: sum.case str2ab_of_bytes)
  have "list_all (\<lambda>c. c < 128) (map b64_char (encode_groups (map unat key)))"
    by (simp add: list_all_iff b64_char_ascii)
  moreover have "list_all (\<lambda>c. c < 128) (replicate ((3 - length key mod 3) mod 3) (61 :: 16 word))"
    by (simp add: list_all_iff)
  ultimately have "list_all (\<lambda>c. c < 128) b"
    unfolding b_def by (simp only: list_all_append simp_thms)
  moreover have "list_all (\<lambda>c. c < 128) [10 :: 16 word]" by simp
  ultimately have a: "list_all (\<lambda>c. c < 128) pem"
    unfolding pem_def using pem_markers_ascii by (simp only: list_all_append simp_thms)
  have p: "prefix pem_begin pem" unfolding pem_def by (rule prefixI) (rule refl)
  have "pem = (pem_begin @ [10] @ b @ [10]) @ pem_end" unfolding pem_def by simp
  then have s: "suffix pem_end pem" by (rule suffixI)
  show ?thesis
    by (rule exI [of _ pem]) (simp only: e a p s i simp_thms)
qed

text \<open>
  Claim C5. For every public key, given by the bytes \<open>key\<close> that
  \<open>exportKey("spki", k)\<close> returns, \<open>exportRSAKey\<close> returns a text \<open>pem\<close> that is
  pure ASCII, starts with the \<open>BEGIN\<close> marker and ends with the \<open>END\<close> marker, and
  \<open>importRSAKey\<close> hands to \<open>importKey("spki", _)\<close> exactly the bytes \<open>key\<close>:
  importing the exported text is importing the original key material.
\<close>

theorem importRSAKey_exportRSAKey:
  "\<exists>pem. exportRSAKey key = Inr pem
     \<and> list_all (\<lambda>c. c < 128) pem \<and> prefix pem_begin pem \<and> suffix pem_end pem
     \<and> importRSAKey P pem = importKey_spki P key"
  by (rule pem_round_trip)

subsection \<open>JSON texts of byte arrays are read back\<close>

lemma unat_digit_char: "d < 10 \<Longrightarrow> unat (digit_char d) = 48 + d"
  unfolding digit_char_def by (rule unat_of_nat16) simp

lemma is_digit_unat: "is_digit c = (48 \<le> unat c \<and> unat c \<le> 57)"
  by (simp add: is_digit_def word_le_nat_alt)

lemma is_digit_digit_char: "d < 10 \<Longrightarrow> is_digit (digit_char d)"
  by (simp add: is_digit_unat unat_digit_char)

lemma digit_char_zero: "d < 10 \<Longrightarrow> (digit_char d = 48) = (d = 0)"
proof -
  assume d: "d < 10"
  have "(digit_char d = 48) = (unat (digit_char d) = unat (48 :: 16 word))"
    by (simp only: word_unat_eq_iff)
  then show ?thesis using d by (simp add: unat_digit_char)
qed

lemma is_digit_not_separator:
  assumes "is_digit c"
  shows "c \<noteq> 44" "c \<noteq> 93" "c \<noteq> 91" "c \<noteq> 10" "c \<noteq> 13"
  using assms by (auto simp: is_digit_unat)

lemma number_text_digits: "list_all is_digit (number_text b)"
proof -
  have "unat b div 100 < 10" using unat_byte_less [of b] by (simp add: less_mult_imp_div_less)
  then show ?thesis
    by (simp add: number_text_def Let_def is_digit_digit_char)
qed

lemma number_text_nonempty: "number_text b \<noteq> []"
  by (simp add: number_text_def Let_def)

lemma decimal_three:
  fixes n :: nat
  shows "(n div 100 * 10 + n div 10 mod 10) * 10 + n mod 10 = n"
proof -
  have "n div 100 = n div 10 div 10" by (simp add: div_mult2_eq)
  then have "n div 100 * 10 + n div 10 mod 10 = n div 10" by simp
  then show ?thesis by simp
qed

lemma parse_number_text: "parse_number (number_text b) = Some b"
proof -
  let ?n = "unat b"
  have lt: "?n < 256" by (rule unat_byte_less)
  consider "?n < 10" | "10 \<le> ?n \<and> ?n < 100" | "100 \<le> ?n" by linarith
  then show ?thesis
  proof cases
    case 1
    then show ?thesis
      by (simp add: parse_number_def number_text_def Let_def is_digit_digit_char
          decimal_value_def unat_digit_char)
  next
    case 2
    then have a: "?n div 10 < 10" "?n mod 10 < 10" "?n div 10 \<noteq> 0"
      by (simp_all add: less_mult_imp_div_less div_greater_zero_iff)
    have "?n div 10 * 10 + ?n mod 10 = ?n" by simp
    then show ?thesis using 2 a lt
      by (simp add: parse_number_def number_text_def Let_def is_digit_digit_char
          decimal_value_def unat_digit_char digit_char_zero)
  next
    case 3
    then have a: "?n div 100 < 10" "?n div 10 mod 10 < 10" "?n mod 10 < 10" "?n div 100 \<noteq> 0"
      using lt by (simp_all add: less_mult_imp_div_less div_greater_zero_iff)
    show ?thesis using 3 a lt decimal_three [of ?n]
      by (simp add: parse_number_def number_text_def Let_def is_digit_digit_char
          decimal_value_def unat_digit_char digit_char_zero)
  qed
qed

lemma number_text_no_char:
  assumes "\<not> is_digit c"
  shows "c \<notin> set (number_text b)"
  using number_text_digits [of b] assms by (auto simp: list_all_iff)

lemma not_digit_separators: "\<not> is_digit 44" "\<not> is_digit 93" "\<not> is_digit 10" "\<not> is_digit 13"
  by (simp_all add: is_digit_def)

lemma takeWhile_number_text:
  "takeWhile (\<lambda>c. c \<noteq> 44) (number_text b @ 44 # r) = number_text b"
  "dropWhile (\<lambda>c. c \<noteq> 44) (number_text b @ 44 # r) = 44 # r"
  "dropWhile (\<lambda>c. c \<noteq> 44) (number_text b) = []"
proof -
  have n: "x \<noteq> 44" if "x \<in> set (number_text b)" for x
    using number_text_no_char [OF not_digit_separators(1), of b] that by auto
  show "takeWhile (\<lambda>c. c \<noteq> 44) (number_text b @ 44 # r) = number_text b"
    using n by (simp add: takeWhile_append2)
  show "dropWhile (\<lambda>c. c \<noteq> 44) (number_text b @ 44 # r) = 44 # r"
    using n by (simp add: dropWhile_append2)
  show "dropWhile (\<lambda>c. c \<noteq> 44) (number_text b) = []"
    using n by simp
qed

lemma parse_join_numbers: "parse_numbers (join_numbers (b # bs)) = Some (b # bs)"
proof (induction bs arbitrary: b)
  case Nil
  show ?case
    by (subst parse_numbers.simps) (simp add: takeWhile_number_text parse_number_text)
next
  case (Cons a bs)
  have "join_numbers (b # a # bs) = number_text b @ 44 # join_numbers (a # bs)" by simp
  then show ?case
    by (subst parse_numbers.simps)
      (simp only: takeWhile_number_text list.case parse_number_text option.case Cons.IH
        option.map)
qed

lemma join_numbers_nonempty: "bs \<noteq> [] \<Longrightarrow> join_numbers bs \<noteq> []"
  by (cases bs rule: join_numbers.cases) (simp_all add: number_text_nonempty)

lemma parse_stringify_bytes: "parse_byte_array (stringify_bytes bs) = Some bs"
proof (cases bs)
  case Nil
  then show ?thesis by (simp add: parse_byte_array_def stringify_bytes_def)
next
  case (Cons b bs')
  then have "join_numbers bs \<noteq> []" by (simp add: join_numbers_nonempty)
  then show ?thesis
    using parse_join_numbers [of b bs'] Cons
    by (simp add: parse_byte_array_def stringify_bytes_def)
qed

lemma join_numbers_chars: "c \<in> set (join_numbers bs) \<Longrightarrow> is_digit c \<or> c = 44"
proof (induction bs rule: join_numbers.induct)
  case 1
  then show ?case by simp
next
  case (2 b)
  then show ?case using number_text_digits [of b] by (auto simp: list_all_iff)
next
  case (3 b a bs)
  then show ?case using number_text_digits [of b] by (auto simp: list_all_iff)
qed

lemma join_numbers_no_bracket: "93 \<notin> set (join_numbers bs)"
  using join_numbers_chars [of 93 bs] not_digit_separators by auto

lemma input_value_stringify: "input_value (stringify_bytes bs) = stringify_bytes bs"
proof -
  have "10 \<notin> set (join_numbers bs)" "13 \<notin> set (join_numbers bs)"
    using join_numbers_chars [of 10 bs] join_numbers_chars [of 13 bs] not_digit_separators
    by auto
  then have "filter (\<lambda>c. c \<noteq> 10 \<and> c \<noteq> 13) (join_numbers bs) = join_numbers bs"
    by (intro filter_True) auto
  then show ?thesis by (simp add: input_value_def stringify_bytes_def)
qed

lemma parse_stringify_pair: "parse_pair (stringify_pair iv w) = Some (iv, w)"
proof -
  define inner where "inner = stringify_bytes iv @ 44 # stringify_bytes w"
  have s: "stringify_pair iv w = 91 # (inner @ [93])"
    by (simp add: stringify_pair_def inner_def)
  have i: "inner = (91 # join_numbers iv) @ 93 # 44 # stringify_bytes w"
    by (simp add: stringify_bytes_def inner_def)
  have n: "x \<noteq> 93" if "x \<in> set (91 # join_numbers iv)" for x
    using join_numbers_no_bracket [of iv] that by auto
  have t: "takeWhile (\<lambda>c. c \<noteq> 93) inner = 91 # join_numbers iv"
    unfolding i using n by (subst takeWhile_append2) simp_all
  have d: "dropWhile (\<lambda>c. c \<noteq> 93) inner = 93 # 44 # stringify_bytes w"
    unfolding i using n by (subst dropWhile_append2) simp_all
  have a: "(91 # join_numbers iv) @ [93] = stringify_bytes iv"
    by (simp add: stringify_bytes_def)
  have b: "butlast (inner @ [93]) = inner" "last (inner @ [93]) = 93" "inner @ [93] \<noteq> []"
    by simp_all
  show ?thesis
    unfolding s parse_pair_def list.case b Let_def t d a
    by (simp add: parse_stringify_bytes)
qed

lemma json_bytes_stringify: "json_bytes P (stringify_bytes bs) = Inr bs"
  by (simp add: json_bytes_def parse_stringify_bytes)

lemma json_pair_stringify: "json_pair P (stringify_pair iv w) = Inr (iv, w)"
  by (simp add: json_pair_def parse_stringify_pair)

subsection \<open>The state an event leaves\<close>

lemma step_simps [simp]:
  "step P st (Receive md fresh) = fst (onData P st md fresh)"
  "step P st (ChannelOpen n) =
     (if n < length (pending st)
      then fst (onOpen P (st\<lparr>pending := remove_nth n (pending st)\<rparr>)
                  (fst (pending st ! n)) (snd (pending st ! n)))
      else st)"
  "step P st (ChannelError n) = st\<lparr>pending := remove_nth n (pending st)\<rparr>"
  "step P st (CreateChat to) = fst (createChat st to True)"
  "step P st (KeyDown k ky now uuid) =
     (if k < length (document st) \<and> \<not> page_element (document st ! k)
      then fst (onkeydown P st k ky now uuid) else st)"
  "step P st (Input k s) =
     (if k < length (document st) \<and> \<not> page_element (document st ! k)
      then update_chat st k (\<lambda>c. c\<lparr>sendBar := input_value s\<rparr>) else st)"
  "step P st (Click k i) = (if sent_node st k i then fst (onclick st k i) else st)"
  "step P st (DblClick k i) = (if sent_node st k i then fst (ondblclick st k i) else st)"
  by (simp_all add: step_def split: prod.splits sum.splits)

subsection \<open>Looking up elements, updating a chat\<close>

lemma find_element_RView:
  "find_element d x n = Some (RView k) \<Longrightarrow> n \<le> k \<and> k - n < length d \<and> view_id (d ! (k - n)) = x"
proof (induction d arbitrary: n)
  case Nil
  then show ?case by simp
next
  case (Cons c cs)
  show ?case
  proof (cases "view_id c = x")
    case True
    with Cons.prems show ?thesis by simp
  next
    case False
    with Cons.prems have "find_element cs x (Suc n) = Some (RView k)"
      by (simp split: option.splits)
    from Cons.IH [OF this] have "Suc n \<le> k" "k - Suc n < length cs"
      "view_id (cs ! (k - Suc n)) = x" by simp_all
    moreover from \<open>Suc n \<le> k\<close> have "k - n = Suc (k - Suc n)" by simp
    ultimately show ?thesis by simp
  qed
qed

lemma getElementById_RView:
  assumes "getElementById d x = Some (RView k)"
  shows "k < length d" and "view_id (d ! k) = x"
  using assms find_element_RView [of d x 0 k]
  by (simp_all add: getElementById_def split: if_splits)



lemma update_chat_simps [simp]:
  "document (update_chat st k f) = (document st)[k := f (document st ! k)]"
  "aesKeys (update_chat st k f) = aesKeys st"
  "pending (update_chat st k f) = pending st"
  "wire (update_chat st k f) = wire st"
  "editing (update_chat st k f) = editing st"
  "replying (update_chat st k f) = replying st"
  "peer_id (update_chat st k f) = peer_id st"
  "keyPair (update_chat st k f) = keyPair st"
  "decrypt_calls (update_chat st k f) = decrypt_calls st"
  "keyless_calls (update_chat st k f) = keyless_calls st"
  by (simp_all add: update_chat_def)


lemma view_id_simps [simp]:
  "view_id (appendChild n c) = view_id c"
  "view_id (removeTyping c) = view_id c"
  "view_id (insertBeforeLast n c) = view_id c"
  "view_id (set_child_html i h c) = view_id c"
  by (simp_all add: appendChild_def removeTyping_def insertBeforeLast_def set_child_html_def)

lemma typing_class_distinct:
  "js ''sent'' \<noteq> js ''typing''" "js ''received'' \<noteq> js ''typing''" "[] \<noteq> js ''typing''"
  by (simp_all add: js_def)



lemma alice_lookup:
  "getElementById (document alice) (js ''bob'') = Some (RView 0)"
  by (simp add: alice_def initial_def getElementById_def js_def)

lemma alice_view:
  "document alice ! 0 = \<lparr>view_id = js ''bob'', summary = js ''alice'',
                       children = [header (js ''bob'')], sendBar = [], page_element = False\<rparr>"
  by (simp add: alice_def initial_def)

lemma nth_update_proj:
  "(\<And>x. f (g x) = f x) \<Longrightarrow> f (xs[i := g (xs ! i)] ! m) = f (xs ! m)"
  by (cases "i < length xs") (auto simp: nth_list_update list_update_beyond)

lemma set_child_html_shape [simp]:
  "length (children (set_child_html i h c)) = length (children c)"
  "className (children (set_child_html i h c) ! m) = className (children c ! m)"
  "elem_id (children (set_child_html i h c) ! m) = elem_id (children c ! m)"
  "sendBar (set_child_html i h c) = sendBar c"
  using nth_update_proj [of className "\<lambda>n. n\<lparr>innerHTML := h\<rparr>" "children c" i m]
    nth_update_proj [of elem_id "\<lambda>n. n\<lparr>innerHTML := h\<rparr>" "children c" i m]
  by (simp_all add: set_child_html_def)

lemma plain_alice: "plain alice"
  by (simp add: plain_def plain_block_def alice_def initial_def header_def stable_html_def
      js_def inert_char_def)


subsection \<open>Typing indicators\<close>





subsection \<open>Delivery acknowledgements\<close>

lemma find_undelivered_none:
  "\<forall>i<n. \<not> (elem_id (cs ! i) = x \<and> \<not> endsWith (innerHTML (cs ! i)) delivered_mark) \<Longrightarrow>
   find_undelivered cs x n = - 1"
  by (induction n) simp_all

lemma find_undelivered_range:
  "find_undelivered cs x n = - 1 \<or> (0 \<le> find_undelivered cs x n \<and> find_undelivered cs x n < int n)"
  by (induction n) auto

lemma find_undelivered_some:
  "0 \<le> find_undelivered cs x n \<Longrightarrow>
   (let i = nat (find_undelivered cs x n) in
      i < n \<and> elem_id (cs ! i) = x \<and> \<not> endsWith (innerHTML (cs ! i)) delivered_mark
      \<and> (\<forall>j. i < j \<and> j < n \<longrightarrow>
             \<not> (elem_id (cs ! j) = x \<and> \<not> endsWith (innerHTML (cs ! j)) delivered_mark)))"
proof (induction n)
  case 0
  then show ?case by simp
next
  case (Suc n)
  show ?case
  proof (cases "elem_id (cs ! n) = x \<and> \<not> endsWith (innerHTML (cs ! n)) delivered_mark")
    case True
    then show ?thesis by (auto simp: Let_def)
  next
    case False
    then have e: "find_undelivered cs x (Suc n) = find_undelivered cs x n" by auto
    with Suc.prems have "0 \<le> find_undelivered cs x n" by simp
    from Suc.IH [OF this] False show ?thesis
      unfolding e Let_def by (auto simp: less_Suc_eq)
  qed
qed

text \<open>No child with the id and without the mark: the handler throws and the state is as
  before.\<close>

lemma delivered_unknown:
  assumes ev: "md_event md = Some Delivered"
    and el: "getElementById (document st) (md_from md) = Some (RView k)"
    and none: "\<forall>i < length (children (document st ! k)).
        \<not> (elem_id (children (document st ! k) ! i) = md_id md
           \<and> \<not> endsWith (innerHTML (children (document st ! k) ! i)) delivered_mark)"
  shows "onData P st md f = (st, Inl TypeError)"
  using ev el find_undelivered_none [OF none]
  by (simp add: onData_def dispatch_def in_view_def onDelivered_def Let_def)

lemma find_undelivered_minus:
  "find_undelivered cs x n = - 1 \<Longrightarrow>
   \<forall>i<n. \<not> (elem_id (cs ! i) = x \<and> \<not> endsWith (innerHTML (cs ! i)) delivered_mark)"
proof (induction n)
  case 0
  then show ?case by simp
next
  case (Suc n)
  then show ?case by (auto simp: less_Suc_eq split: if_splits)
qed

text \<open>Some child has the id and no mark: the last such child gets the mark, nothing else
  changes.\<close>

lemma delivered_marks_latest:
  assumes ev: "md_event md = Some Delivered"
    and el: "getElementById (document st) (md_from md) = Some (RView k)"
    and some: "i < length (children (document st ! k))"
      "elem_id (children (document st ! k) ! i) = md_id md"
      "\<not> endsWith (innerHTML (children (document st ! k) ! i)) delivered_mark"
  shows "\<exists>m. i \<le> m \<and> m < length (children (document st ! k))
           \<and> elem_id (children (document st ! k) ! m) = md_id md
           \<and> \<not> endsWith (innerHTML (children (document st ! k) ! m)) delivered_mark
           \<and> (\<forall>j. m < j \<and> j < length (children (document st ! k)) \<longrightarrow>
                  \<not> (elem_id (children (document st ! k) ! j) = md_id md
                     \<and> \<not> endsWith (innerHTML (children (document st ! k) ! j)) delivered_mark))
           \<and> onData P st md f =
               (update_chat st k
                  (set_child_html m (innerHTML (children (document st ! k) ! m) @ delivered_mark)),
                Inr ())"
proof -
  let ?cs = "children (document st ! k)"
  let ?r = "find_undelivered ?cs (md_id md) (length ?cs)"
  have "?r \<noteq> - 1" using find_undelivered_minus [of ?cs "md_id md" "length ?cs"] some by blast
  with find_undelivered_range [of ?cs "md_id md" "length ?cs"] have pos: "0 \<le> ?r" by auto
  note m = find_undelivered_some [OF pos, unfolded Let_def]
  have "i \<le> nat ?r"
  proof (rule ccontr)
    assume "\<not> i \<le> nat ?r"
    then have "nat ?r < i \<and> i < length ?cs" using some(1) by simp
    with m some show False by blast
  qed
  moreover have "onData P st md f =
      (update_chat st k (set_child_html (nat ?r) (innerHTML (?cs ! nat ?r) @ delivered_mark)), Inr ())"
    using ev el pos by (simp add: onData_def dispatch_def in_view_def onDelivered_def Let_def)
  ultimately show ?thesis using m by blast
qed

text \<open>
  Claim C2, at the input where it fails. \<open>alice\<close> has a chat with \<open>bob\<close> holding
  only the underlined peer id; a \<open>Delivered\<close> envelope from \<open>bob\<close> names the
  unknown id \<open>m1\<close>. The loop ends with \<open>i = -1\<close>, and \<open>el.children[i].innerHTML\<close>
  throws a \<open>TypeError\<close>: the handler does not complete. (The view is unchanged, and
  with a matching child the last one without mark is marked: the two lemmas above.)
\<close>

theorem delivered_unknown_throws:
  "onData toy_platform alice (envelope (js ''bob'') (js ''m1'') (Some Delivered)) ([], [])
     = (alice, Inl TypeError)"
proof -
  let ?md = "envelope (js ''bob'') (js ''m1'') (Some Delivered)"
  have ev: "md_event ?md = Some Delivered" and fr: "md_from ?md = js ''bob''"
    and i: "md_id ?md = js ''m1''"
    by (simp_all add: envelope_def)
  have el: "getElementById (document alice) (md_from ?md) = Some (RView 0)"
    by (simp only: fr alice_lookup)
  have "\<forall>i < length (children (document alice ! 0)).
        \<not> (elem_id (children (document alice ! 0) ! i) = md_id ?md
           \<and> \<not> endsWith (innerHTML (children (document alice ! 0) ! i)) delivered_mark)"
    by (simp add: alice_view header_def envelope_def js_def)
  from delivered_unknown [OF ev el this] show ?thesis .
qed

subsection \<open>Envelopes from a peer without a key\<close>

lemma decrypt_body_no_key:
  "aesKeys st p = None \<Longrightarrow>
   decrypt_body P st p body =
     (if inherited P (aesKeys st) p then
        (case json_bytes P body of
           Inl e \<Rightarrow> (st, Inl e)
         | Inr ct \<Rightarrow> (st\<lparr>keyless_calls := keyless_calls st @ [ct]\<rparr>, Inl TypeError))
      else (st, Inl TypeError))"
  by (simp add: decrypt_body_def)

lemma decrypt_body_no_key_fails:
  "aesKeys st p = None \<Longrightarrow> \<exists>e. snd (decrypt_body P st p body) = Inl e"
  by (simp add: decrypt_body_no_key split: sum.splits)

lemma dispatch_no_key:
  assumes "aesKeys st (md_from md) = None"
    and "md_event md = None \<or> md_event md = Some Edit"
  shows "dispatch P st el md f =
           (fst (decrypt_body P st (md_from md) (md_body md)),
            Inl (projl (snd (decrypt_body P st (md_from md) (md_body md)))))"
proof -
  obtain s r where d: "decrypt_body P st (md_from md) (md_body md) = (s, r)"
    by (cases "decrypt_body P st (md_from md) (md_body md)")
  from decrypt_body_no_key_fails [OF assms(1), of P "md_body md"] d
  obtain e where r: "r = Inl e" by auto
  show ?thesis
    using assms(2) d r
    by (auto simp: dispatch_def onEdit_def onMessage_def decrypt_text_def)
qed

text \<open>The handler's result without a key: the state \<open>st0\<close> in which the sender has a
  chat block, and the failure of the decrypt expression in it.\<close>

lemma onData_no_key:
  assumes key: "aesKeys st (md_from md) = None"
    and ev: "md_event md = None \<or> md_event md = Some Edit"
  shows "\<exists>bs. length bs = (case getElementById (document st) (md_from md) of
                              Some el \<Rightarrow> 0 | None \<Rightarrow> 1)
           \<and> list_all (\<lambda>b. view_id b = md_from md) bs
           \<and> onData P st md f =
               (if inherited P (aesKeys st) (md_from md) then
                  (case json_bytes P (md_body md) of
                     Inl e \<Rightarrow> (st\<lparr>document := document st @ bs\<rparr>, Inl e)
                   | Inr ct \<Rightarrow>
                       (st\<lparr>document := document st @ bs,
                           keyless_calls := keyless_calls st @ [ct]\<rparr>, Inl TypeError))
                else (st\<lparr>document := document st @ bs\<rparr>, Inl TypeError))"
proof (cases "getElementById (document st) (md_from md)")
  case None
  define b where "b = \<lparr>view_id = md_from md, summary = peer_id st,
                        children = [\<lparr>elem_id = [], className = [], innerHTML = md_from md\<rparr>],
                        sendBar = [], page_element = False\<rparr>"
  define st1 where "st1 = st\<lparr>document := document st @ [b]\<rparr>"
  have c: "createChat st (md_from md) False = (st1, Inr (RView (length (document st))))"
    by (simp add: createChat_def Let_def st1_def b_def)
  have k1: "aesKeys st1 (md_from md) = None" using key by (simp add: st1_def)
  have db: "decrypt_body P st1 (md_from md) (md_body md) =
      (if inherited P (aesKeys st) (md_from md) then
         (case json_bytes P (md_body md) of
            Inl e \<Rightarrow> (st1, Inl e)
          | Inr ct \<Rightarrow> (st1\<lparr>keyless_calls := keyless_calls st @ [ct]\<rparr>, Inl TypeError))
       else (st1, Inl TypeError))"
  proof -
    have kl: "keyless_calls st1 = keyless_calls st" "aesKeys st1 = aesKeys st"
      by (simp_all add: st1_def)
    show ?thesis by (simp only: decrypt_body_no_key [OF k1] kl)
  qed
  have "onData P st md f = dispatch P st1 (RView (length (document st))) md f"
    using None c by (simp add: onData_def)
  also have "\<dots> = (fst (decrypt_body P st1 (md_from md) (md_body md)),
            Inl (projl (snd (decrypt_body P st1 (md_from md) (md_body md)))))"
    by (rule dispatch_no_key [OF k1 ev])
  also have "\<dots> =
      (if inherited P (aesKeys st) (md_from md) then
         (case json_bytes P (md_body md) of
            Inl e \<Rightarrow> (st1, Inl e)
          | Inr ct \<Rightarrow> (st1\<lparr>keyless_calls := keyless_calls st @ [ct]\<rparr>, Inl TypeError))
       else (st1, Inl TypeError))"
    unfolding db by (simp split: sum.splits)
  finally have "onData P st md f =
      (if inherited P (aesKeys st) (md_from md) then
         (case json_bytes P (md_body md) of
            Inl e \<Rightarrow> (st\<lparr>document := document st @ [b]\<rparr>, Inl e)
          | Inr ct \<Rightarrow>
              (st\<lparr>document := document st @ [b],
                  keyless_calls := keyless_calls st @ [ct]\<rparr>, Inl TypeError))
       else (st\<lparr>document := document st @ [b]\<rparr>, Inl TypeError))"
    unfolding st1_def .
  moreover have "view_id b = md_from md" by (simp add: b_def)
  ultimately show ?thesis
    using None by (intro exI [of _ "[b]"]) (simp split: sum.splits)
next
  case (Some el)
  have "onData P st md f = dispatch P st el md f"
    using Some by (simp add: onData_def)
  also have "\<dots> = (fst (decrypt_body P st (md_from md) (md_body md)),
            Inl (projl (snd (decrypt_body P st (md_from md) (md_body md)))))"
    by (rule dispatch_no_key [OF key ev])
  finally have "onData P st md f =
      (if inherited P (aesKeys st) (md_from md) then
         (case json_bytes P (md_body md) of
            Inl e \<Rightarrow> (st, Inl e)
          | Inr ct \<Rightarrow> (st\<lparr>keyless_calls := keyless_calls st @ [ct]\<rparr>, Inl TypeError))
       else (st, Inl TypeError))"
    by (simp add: decrypt_body_no_key [OF key] split: sum.splits)
  then show ?thesis
    using Some by (intro exI [of _ "[]"]) (simp split: sum.splits)
qed

text \<open>
  Claim C3, as the code has it. A plain message or an \<open>Edit\<close> envelope from a peer
  with no entry in \<open>aesKeys\<close> makes the handler throw; no plaintext is obtained, no
  decryption with a key is attempted, nothing is sent, and every block, key and cursor
  is left as it was: the document at most gains a chat block for the sender, and in
  a plain state, where the document holds every element that carries an id, it
  gains that block exactly when the sender's id named no element. When the sender's id is not a name that \<open>aesKeys\<close>
  inherits as a JavaScript object, the exception is the \<open>TypeError\<close> of
  \<open>aesKeys[messageData.from][0]\<close>, raised before anything is parsed and before
  \<open>decrypt\<close> is called. When it is such a name (\<open>constructor\<close>, say), the body is
  parsed, the exception is that of the parse if it fails, and otherwise
  \<open>crypto.subtle.decrypt\<close> is called with \<open>undefined\<close> for the key and rejects
  with a \<open>TypeError\<close>.
\<close>

theorem missing_key_aborts:
  assumes "aesKeys st (md_from md) = None"
    and "md_event md = None \<or> md_event md = Some Edit"
  shows "\<exists>st1 e bs. onData P st md f = (st1, Inl e)
           \<and> decrypt_calls st1 = decrypt_calls st
           \<and> pending st1 = pending st \<and> wire st1 = wire st
           \<and> aesKeys st1 = aesKeys st \<and> keyPair st1 = keyPair st \<and> peer_id st1 = peer_id st
           \<and> editing st1 = editing st \<and> replying st1 = replying st
           \<and> document st1 = document st @ bs \<and> length bs \<le> 1
           \<and> list_all (\<lambda>b. view_id b = md_from md) bs
           \<and> (plain st \<longrightarrow>
                 length bs = (case getElementById (document st) (md_from md) of
                                Some el \<Rightarrow> 0 | None \<Rightarrow> 1))
           \<and> (if inherited P (aesKeys st) (md_from md) then
                 (case json_bytes P (md_body md) of
                    Inl e' \<Rightarrow> e = e' \<and> keyless_calls st1 = keyless_calls st
                  | Inr ct \<Rightarrow> e = TypeError \<and> keyless_calls st1 = keyless_calls st @ [ct])
               else e = TypeError \<and> keyless_calls st1 = keyless_calls st)"
proof -
  from onData_no_key [OF assms, of P f] obtain bs where
    len: "length bs = (case getElementById (document st) (md_from md) of
                         Some el \<Rightarrow> 0 | None \<Rightarrow> 1)"
    and ids: "list_all (\<lambda>b. view_id b = md_from md) bs"
    and res: "onData P st md f =
               (if inherited P (aesKeys st) (md_from md) then
                  (case json_bytes P (md_body md) of
                     Inl e \<Rightarrow> (st\<lparr>document := document st @ bs\<rparr>, Inl e)
                   | Inr ct \<Rightarrow>
                       (st\<lparr>document := document st @ bs,
                           keyless_calls := keyless_calls st @ [ct]\<rparr>, Inl TypeError))
                else (st\<lparr>document := document st @ bs\<rparr>, Inl TypeError))"
    by blast
  have le: "length bs \<le> 1" using len by (simp split: option.splits)
  show ?thesis
  proof (cases "inherited P (aesKeys st) (md_from md)")
    case False
    with res len le ids show ?thesis by simp
  next
    case True
    show ?thesis
    proof (cases "json_bytes P (md_body md)")
      case (Inl e)
      with True res len le ids show ?thesis by simp
    next
      case (Inr ct)
      with True res len le ids show ?thesis by simp
    qed
  qed
qed

text \<open>At \<open>alice\<close>, for an \<open>Edit\<close> envelope from a peer called \<open>constructor\<close>: the
  sender gets a chat block, the body is parsed and \<open>decrypt\<close> is called without a
  key.\<close>

lemma alice_no_key: "aesKeys alice p = None"
  by (simp add: alice_def initial_def)

lemma alice_constructor:
  "getElementById (document alice) (js ''constructor'') = None"
  "inherited toy_platform (aesKeys alice) (js ''constructor'')"
  "json_bytes toy_platform (js ''[105,106]'') = Inr [105, 106]"
  "\<not> inherited toy_platform (aesKeys alice) (js ''bob'')"
proof -
  show "getElementById (document alice) (js ''constructor'') = None"
    by (simp add: alice_def initial_def getElementById_def header_def js_def)
  show "inherited toy_platform (aesKeys alice) (js ''constructor'')"
    by (simp add: inherited_def toy_platform_def js_def)
  show "json_bytes toy_platform (js ''[105,106]'') = Inr [105, 106]"
    by (simp add: json_bytes_def parse_byte_array_def js_def parse_number_def is_digit_def
        decimal_value_def)
  show "\<not> inherited toy_platform (aesKeys alice) (js ''bob'')"
    by (simp add: inherited_def toy_platform_def alice_def initial_def js_def)
qed

theorem missing_key_aborts_witness:
  "aesKeys alice (md_from edit_constructor) = None
   \<and> (md_event edit_constructor = None \<or> md_event edit_constructor = Some Edit)
   \<and> plain alice
   \<and> (\<exists>st1 b. onData toy_platform alice edit_constructor ([], []) = (st1, Inl TypeError)
         \<and> keyless_calls st1 = [[105, 106]] \<and> decrypt_calls st1 = []
         \<and> pending st1 = [] \<and> wire st1 = [] \<and> aesKeys st1 = aesKeys alice
         \<and> editing st1 = None \<and> replying st1 = None
         \<and> document st1 = document alice @ [b] \<and> view_id b = js ''constructor'')"
proof -
  have k: "aesKeys alice (md_from edit_constructor) = None" by (rule alice_no_key)
  have e: "md_event edit_constructor = None \<or> md_event edit_constructor = Some Edit"
    by (simp add: edit_constructor_def)
  have fr: "md_from edit_constructor = js ''constructor''"
    and bd: "md_body edit_constructor = js ''[105,106]''"
    by (simp_all add: edit_constructor_def)
  have al: "keyless_calls alice = []" "decrypt_calls alice = []" "pending alice = []"
    "wire alice = []" "editing alice = None" "replying alice = None"
    by (simp_all add: alice_def initial_def)
  from missing_key_aborts [OF k e, of toy_platform "([], [])"]
  obtain st1 er bs where
    r: "onData toy_platform alice edit_constructor ([], []) = (st1, Inl er)"
      "decrypt_calls st1 = decrypt_calls alice" "pending st1 = pending alice"
      "wire st1 = wire alice" "aesKeys st1 = aesKeys alice"
      "editing st1 = editing alice" "replying st1 = replying alice"
      "document st1 = document alice @ bs" "length bs = 1"
      "list_all (\<lambda>b. view_id b = js ''constructor'') bs"
      "er = TypeError" "keyless_calls st1 = keyless_calls alice @ [[105, 106]]"
    unfolding fr bd by (auto simp: alice_constructor plain_alice)
  from r(9) obtain b where b: "bs = [b]" by (cases bs) auto
  with r(10) have "view_id b = js ''constructor''" by simp
  with r b al k e plain_alice show ?thesis by auto
qed

text \<open>
  Claim C3 as stated fails: a plain message for \<open>alice\<close> from \<open>bob\<close>, with whom no
  key has been established, ends in a thrown \<open>TypeError\<close>.
\<close>

theorem plain_message_without_key_throws:
  "onData toy_platform alice (envelope (js ''bob'') (js ''m1'') None) ([], [])
     = (alice, Inl TypeError)"
proof -
  let ?md = "envelope (js ''bob'') (js ''m1'') None"
  have k: "aesKeys alice (md_from ?md) = None" by (rule alice_no_key)
  have e: "md_event ?md = None \<or> md_event ?md = Some Edit" by (simp add: envelope_def)
  have fr: "md_from ?md = js ''bob''" by (simp add: envelope_def)
  from onData_no_key [OF k e, of toy_platform "([], [])"]
  show ?thesis unfolding fr alice_lookup by (simp add: alice_constructor)
qed

subsection \<open>Edits\<close>

lemma first_with_id_Some:
  "first_with_id ns x n = Some m \<Longrightarrow> n \<le> m \<and> m - n < length ns \<and> elem_id (ns ! (m - n)) = x"
proof (induction ns arbitrary: n)
  case Nil
  then show ?case by simp
next
  case (Cons a ns)
  show ?case
  proof (cases "elem_id a = x")
    case True
    with Cons.prems show ?thesis by simp
  next
    case False
    with Cons.prems have f: "first_with_id ns x (Suc n) = Some m" by simp
    from Cons.IH [OF f] have "Suc n \<le> m" "m - Suc n < length ns"
      "elem_id (ns ! (m - Suc n)) = x" by simp_all
    moreover from \<open>Suc n \<le> m\<close> have "m - n = Suc (m - Suc n)" by simp
    ultimately show ?thesis by simp
  qed
qed

lemma find_element_RNode:
  "find_element d x n = Some (RNode j i) \<Longrightarrow>
   n \<le> j \<and> j - n < length d \<and> i < length (children (d ! (j - n)))
   \<and> elem_id (children (d ! (j - n)) ! i) = x"
proof (induction d arbitrary: n)
  case Nil
  then show ?case by simp
next
  case (Cons c cs)
  show ?case
  proof (cases "view_id c = x")
    case True
    with Cons.prems show ?thesis by simp
  next
    case False
    show ?thesis
    proof (cases "first_with_id (children c) x 0")
      case None
      with False Cons.prems have f: "find_element cs x (Suc n) = Some (RNode j i)" by simp
      from Cons.IH [OF f] have "Suc n \<le> j" "j - Suc n < length cs"
        "i < length (children (cs ! (j - Suc n)))"
        "elem_id (children (cs ! (j - Suc n)) ! i) = x" by simp_all
      moreover from \<open>Suc n \<le> j\<close> have "j - n = Suc (j - Suc n)" by simp
      ultimately show ?thesis by simp
    next
      case (Some m)
      with False Cons.prems have "j = n" "i = m" by simp_all
      with first_with_id_Some [OF Some] show ?thesis by simp
    qed
  qed
qed

lemma getElementById_RNode:
  assumes "getElementById d x = Some (RNode j i)"
  shows "j < length d" and "i < length (children (d ! j))"
    and "elem_id (children (d ! j) ! i) = x"
  using assms find_element_RNode [of d x 0 j i]
  by (simp_all add: getElementById_def split: if_splits)

text \<open>The lookup finds the first element in tree order: no block before the one it
  returns, and no child before the one it returns, has the id.\<close>

lemma first_with_id_first:
  "first_with_id ns x n = Some m \<Longrightarrow> list_all (\<lambda>e. elem_id e \<noteq> x) (take (m - n) ns)"
proof (induction ns arbitrary: n)
  case Nil
  then show ?case by simp
next
  case (Cons a ns)
  show ?case
  proof (cases "elem_id a = x")
    case True
    with Cons.prems show ?thesis by simp
  next
    case False
    with Cons.prems have f: "first_with_id ns x (Suc n) = Some m" by simp
    from first_with_id_Some [OF f] have "Suc n \<le> m" by simp
    then have "m - n = Suc (m - Suc n)" by simp
    with Cons.IH [OF f] False show ?thesis by simp
  qed
qed

lemma first_with_id_None:
  "first_with_id ns x n = None \<Longrightarrow> list_all (\<lambda>e. elem_id e \<noteq> x) ns"
  by (induction ns arbitrary: n) (simp_all split: if_splits)

lemma find_element_first:
  assumes "find_element d x n = Some r"
    and "r = RView j \<or> r = RNode j i"
  shows "list_all (\<lambda>c. view_id c \<noteq> x \<and> list_all (\<lambda>e. elem_id e \<noteq> x) (children c))
           (take (j - n) d)"
  using assms
proof (induction d arbitrary: n)
  case Nil
  then show ?case by simp
next
  case (Cons c cs)
  show ?case
  proof (cases "view_id c = x")
    case True
    with Cons.prems have "j = n" by auto
    then show ?thesis by simp
  next
    case False
    show ?thesis
    proof (cases "first_with_id (children c) x 0")
      case None
      with False Cons.prems have f: "find_element cs x (Suc n) = Some r" by simp
      have "Suc n \<le> j"
        using Cons.prems(2) f find_element_RView [of cs x "Suc n" j]
          find_element_RNode [of cs x "Suc n" j i] by auto
      then have "j - n = Suc (j - Suc n)" by simp
      with Cons.IH [OF f Cons.prems(2)] False first_with_id_None [OF None]
      show ?thesis by simp
    next
      case (Some m)
      with False Cons.prems have "j = n" by auto
      then show ?thesis by simp
    qed
  qed
qed

lemma find_element_first_child:
  "find_element d x n = Some (RNode j i) \<Longrightarrow>
   view_id (d ! (j - n)) \<noteq> x
   \<and> list_all (\<lambda>e. elem_id e \<noteq> x) (take i (children (d ! (j - n))))"
proof (induction d arbitrary: n)
  case Nil
  then show ?case by simp
next
  case (Cons c cs)
  show ?case
  proof (cases "view_id c = x")
    case True
    with Cons.prems show ?thesis by simp
  next
    case False
    show ?thesis
    proof (cases "first_with_id (children c) x 0")
      case None
      with False Cons.prems have f: "find_element cs x (Suc n) = Some (RNode j i)" by simp
      from find_element_RNode [OF f] have "Suc n \<le> j" by simp
      then have "j - n = Suc (j - Suc n)" by simp
      with Cons.IH [OF f] show ?thesis by simp
    next
      case (Some m)
      with False Cons.prems have "j = n" "i = m" by simp_all
      with first_with_id_first [OF Some] False show ?thesis by simp
    qed
  qed
qed

lemma getElementById_first:
  assumes "getElementById d x = Some r" and "r = RView j \<or> r = RNode j i"
  shows "list_all (\<lambda>c. view_id c \<noteq> x \<and> list_all (\<lambda>e. elem_id e \<noteq> x) (children c))
           (take j d)"
  using assms find_element_first [of d x 0 r j i]
  by (simp add: getElementById_def split: if_splits)

lemma getElementById_first_child:
  assumes "getElementById d x = Some (RNode j i)"
  shows "view_id (d ! j) \<noteq> x"
    and "list_all (\<lambda>e. elem_id e \<noteq> x) (take i (children (d ! j)))"
  using assms find_element_first_child [of d x 0 j i]
  by (simp_all add: getElementById_def split: if_splits)

lemma plain_update:
  assumes "plain_block c" and "stable_html h"
  shows "plain_block (c\<lparr>children := (children c)[i := (children c ! i)\<lparr>innerHTML := h\<rparr>]\<rparr>)"
proof -
  have "list_all (\<lambda>n. stable_html (innerHTML n))
          ((children c)[i := (children c ! i)\<lparr>innerHTML := h\<rparr>])"
    using assms by (auto simp: plain_block_def list_all_iff dest!: set_update_subset_insert [THEN subsetD])
  then show ?thesis using assms(1) by (simp add: plain_block_def)
qed

lemma plain_butlast:
  "plain_block c \<Longrightarrow> plain_block (c\<lparr>children := butlast (children c)\<rparr>)"
  by (auto simp: plain_block_def list_all_iff dest: in_set_butlastD)

lemma plain_list_update:
  "list_all plain_block d \<Longrightarrow> plain_block c \<Longrightarrow> list_all plain_block (d[j := c])"
  by (auto simp: list_all_iff dest!: set_update_subset_insert [THEN subsetD])

lemma plain_nth: "list_all plain_block d \<Longrightarrow> k < length d \<Longrightarrow> plain_block (d ! k)"
  by (simp add: list_all_length)

text \<open>
  Claim C10. An \<open>Edit\<close> envelope from peer \<open>P\<close> (whose id resolves to its
  conversation view \<open>k\<close>, and for whom a key is stored under which the body decrypts)
  looks its target up in the whole document: when the lookup of the envelope id gives
  child \<open>i\<close> of any block \<open>j\<close>, the view of \<open>P\<close> or of another peer, that child's
  content becomes the text decrypted under the key of \<open>P\<close> followed by the time
  suffix, and nothing else in block \<open>j\<close> changes. Then the last child of the view
  of \<open>P\<close> is removed if its class is \<open>typing\<close>, and the \<open>Delivered\<close> reply is
  queued for \<open>P\<close>. Each lookup returns the first element in document order that
  has the id: no block before the one found, nor one of its children, has it, and
  neither has block \<open>j\<close> itself or a child of \<open>j\<close> before \<open>i\<close>.

  The state is plain, so that the blocks and their children are all the elements
  with an id, and the new content is \<open>stable_html\<close>, so that the node reads back
  what was assigned; the state after the envelope is plain again.
\<close>

theorem edit_resolves_globally:
  assumes ev: "md_event md = Some Edit"
    and key: "aesKeys st (md_from md) = Some (iv, key)"
    and ct: "json_bytes P (md_body md) = Inr ct"
    and pt: "aes_decrypt P iv key ct = Some pt"
    and target: "getElementById (document st) (md_id md) = Some (RNode j i)"
    and el: "getElementById (document st) (md_from md) = Some (RView k)"
    and pl: "plain st"
    and tx: "stable_html (utf8_decode P pt @ time_suffix (md_time md))"
  shows "j < length (document st) \<and> i < length (children (document st ! j))
    \<and> elem_id (children (document st ! j) ! i) = md_id md
    \<and> list_all (\<lambda>c. view_id c \<noteq> md_id md
                      \<and> list_all (\<lambda>e. elem_id e \<noteq> md_id md) (children c))
          (take j (document st))
    \<and> view_id (document st ! j) \<noteq> md_id md
    \<and> list_all (\<lambda>e. elem_id e \<noteq> md_id md) (take i (children (document st ! j)))
    \<and> k < length (document st) \<and> view_id (document st ! k) = md_from md
    \<and> list_all (\<lambda>c. view_id c \<noteq> md_from md
                      \<and> list_all (\<lambda>e. elem_id e \<noteq> md_from md) (children c))
          (take k (document st))
    \<and> (let d = (document st)
                  [j := (document st ! j)
                     \<lparr>children := (children (document st ! j))
                        [i := (children (document st ! j) ! i)
                           \<lparr>innerHTML := utf8_decode P pt @ time_suffix (md_time md)\<rparr>]\<rparr>];
            cs = children (d ! k)
        in onData P st md f =
             (st\<lparr>document :=
                   d[k := (d ! k)
                      \<lparr>children := (if cs \<noteq> [] \<and> className (last cs) = js ''typing''
                                    then butlast cs else cs)\<rparr>],
                 pending := pending st @
                   [(md_from md,
                     \<lparr>md_from = peer_id st, md_body = [], md_time = [], md_id = md_id md,
                      md_event = Some Delivered, md_prev = None\<rparr>)],
                 decrypt_calls := decrypt_calls st @ [(iv, key, ct)]\<rparr>,
              Inr ()))
    \<and> plain (fst (onData P st md f))"
proof -
  define h where "h = utf8_decode P pt @ time_suffix (md_time md)"
  define cj where "cj = (document st ! j)
      \<lparr>children := (children (document st ! j))[i := (children (document st ! j) ! i)\<lparr>innerHTML := h\<rparr>]\<rparr>"
  define d where "d = (document st)[j := cj]"
  define ck where "ck = (d ! k)
      \<lparr>children := (if children (d ! k) \<noteq> [] \<and> className (last (children (d ! k))) = js ''typing''
                    then butlast (children (d ! k)) else children (d ! k))\<rparr>"
  note n = getElementById_RNode [OF target] and v = getElementById_RView [OF el]
  have sc: "set_child_html i h (document st ! j) = cj"
    by (simp add: set_child_html_def cj_def)
  have rt: "removeTyping (d ! k) = ck"
    by (simp add: removeTyping_def lastChild_typing_def ck_def)
  have res: "onData P st md f =
      (st\<lparr>document := d[k := ck],
          pending := pending st @
            [(md_from md,
              \<lparr>md_from = peer_id st, md_body = [], md_time = [], md_id = md_id md,
               md_event = Some Delivered, md_prev = None\<rparr>)],
          decrypt_calls := decrypt_calls st @ [(iv, key, ct)]\<rparr>,
       Inr ())"
    using ev key ct pt target el
    by (simp add: onData_def dispatch_def onEdit_def decrypt_text_def decrypt_body_def
        set_innerHTML_def in_view_def send_def control_def update_chat_def Let_def
        sc [unfolded h_def] rt [unfolded d_def h_def] d_def h_def)
  have pd: "list_all plain_block (document st)" using pl by (simp add: plain_def)
  have "plain_block cj"
    unfolding cj_def using plain_nth [OF pd n(1)] tx by (intro plain_update) (simp_all add: h_def)
  then have pd1: "list_all plain_block d"
    unfolding d_def by (rule plain_list_update [OF pd])
  have kd: "k < length d" using v(1) by (simp add: d_def)
  have "plain_block ck"
    unfolding ck_def using plain_nth [OF pd1 kd] plain_butlast [of "d ! k"] by simp
  then have "list_all plain_block (d[k := ck])" by (rule plain_list_update [OF pd1])
  then have p1: "plain (fst (onData P st md f))" by (simp add: res plain_def)
  have main: "let d = (document st)
                  [j := (document st ! j)
                     \<lparr>children := (children (document st ! j))
                        [i := (children (document st ! j) ! i)
                           \<lparr>innerHTML := utf8_decode P pt @ time_suffix (md_time md)\<rparr>]\<rparr>];
            cs = children (d ! k)
        in onData P st md f =
             (st\<lparr>document :=
                   d[k := (d ! k)
                      \<lparr>children := (if cs \<noteq> [] \<and> className (last cs) = js ''typing''
                                    then butlast cs else cs)\<rparr>],
                 pending := pending st @
                   [(md_from md,
                     \<lparr>md_from = peer_id st, md_body = [], md_time = [], md_id = md_id md,
                      md_event = Some Delivered, md_prev = None\<rparr>)],
                 decrypt_calls := decrypt_calls st @ [(iv, key, ct)]\<rparr>,
              Inr ())"
    using res unfolding Let_def ck_def d_def cj_def h_def .
  note ft = getElementById_first [OF target, of j i, simplified]
    and fc = getElementById_first_child [OF target]
    and fv = getElementById_first [OF el, of k 0, simplified]
  from n(1) n(2) n(3) ft fc(1) fc(2) v(1) v(2) fv main p1 show ?thesis by (intro conjI)
qed

text \<open>At \<open>alice_bob_typing\<close>: the envelope comes from \<open>bob\<close>, who is shown as
  typing; the node \<open>m1\<close> it rewrites is in the view of \<open>carol\<close>. The typing
  indicator leaves the view of \<open>bob\<close> and the acknowledgement goes to \<open>bob\<close>.\<close>

lemma parse_105: "json_bytes toy_platform (js ''[105,106]'') = Inr [105, 106]"
  by (simp add: json_bytes_def parse_byte_array_def js_def parse_number_def is_digit_def
      decimal_value_def)

lemma plain_alice_bob_typing: "plain alice_bob_typing"
  by (simp add: plain_def plain_block_def alice_bob_typing_def alice_two_chats_def alice_def
      initial_def header_def hello_def typing_node_def id_element_def stable_html_def js_def
      inert_char_def time_suffix_def small_open_def small_close_def)

lemma stable_hi:
  "stable_html (js ''hi'' @ time_suffix (js ''edited at 10:05''))"
  by (simp add: stable_html_def js_def inert_char_def time_suffix_def small_open_def
      small_close_def)

theorem edit_resolves_globally_witness:
  "md_event edit_m1 = Some Edit
   \<and> aesKeys alice_bob_typing (md_from edit_m1) = Some ([7], [9])
   \<and> json_bytes toy_platform (md_body edit_m1) = Inr [105, 106]
   \<and> aes_decrypt toy_platform [7] [9] [105, 106] = Some [104, 105]
   \<and> getElementById (document alice_bob_typing) (md_id edit_m1) = Some (RNode 2 1)
   \<and> getElementById (document alice_bob_typing) (md_from edit_m1) = Some (RView 1)
   \<and> plain alice_bob_typing
   \<and> stable_html (utf8_decode toy_platform [104, 105] @ time_suffix (md_time edit_m1))
   \<and> onData toy_platform alice_bob_typing edit_m1 ([], []) =
       (alice_bob_typing
          \<lparr>document :=
             [id_element,
              \<lparr>view_id = js ''bob'', summary = js ''alice'',
               children = [header (js ''bob'')], sendBar = [], page_element = False\<rparr>,
              \<lparr>view_id = js ''carol'', summary = js ''alice'',
               children = [header (js ''carol''),
                           hello\<lparr>innerHTML := js ''hi'' @ time_suffix (js ''edited at 10:05'')\<rparr>],
               sendBar = [], page_element = False\<rparr>],
           pending :=
             [(js ''bob'',
               \<lparr>md_from = js ''alice'', md_body = [], md_time = [], md_id = js ''m1'',
                md_event = Some Delivered, md_prev = None\<rparr>)],
           decrypt_calls := [([7], [9], [105, 106])]\<rparr>,
        Inr ())"
proof -
  have ev: "md_event edit_m1 = Some Edit" by (simp add: edit_m1_def)
  have key: "aesKeys alice_bob_typing (md_from edit_m1) = Some ([7], [9])"
    by (simp add: edit_m1_def alice_bob_typing_def alice_two_chats_def)
  have ct: "json_bytes toy_platform (md_body edit_m1) = Inr [105, 106]"
    using parse_105 by (simp add: edit_m1_def)
  have pt: "aes_decrypt toy_platform [7] [9] [105, 106] = Some [104, 105]"
    by (simp add: toy_platform_def)
  have doc: "document alice_bob_typing =
     [id_element,
      \<lparr>view_id = js ''bob'', summary = js ''alice'',
       children = [header (js ''bob''), typing_node], sendBar = [], page_element = False\<rparr>,
      \<lparr>view_id = js ''carol'', summary = js ''alice'',
       children = [header (js ''carol''), hello], sendBar = [], page_element = False\<rparr>]"
    by (simp add: alice_bob_typing_def)
  have target: "getElementById (document alice_bob_typing) (md_id edit_m1) = Some (RNode 2 1)"
    unfolding doc
    by (simp add: edit_m1_def getElementById_def header_def hello_def typing_node_def
        id_element_def js_def)
  have el: "getElementById (document alice_bob_typing) (md_from edit_m1) = Some (RView 1)"
    unfolding doc by (simp add: edit_m1_def getElementById_def id_element_def js_def)
  have hi: "utf8_decode toy_platform [104, 105] = js ''hi''"
    by (simp add: toy_platform_def js_def)
  have tm: "md_time edit_m1 = js ''edited at 10:05''" "md_from edit_m1 = js ''bob''"
    "md_id edit_m1 = js ''m1''"
    by (simp_all add: edit_m1_def)
  have tx: "stable_html (utf8_decode toy_platform [104, 105] @ time_suffix (md_time edit_m1))"
    unfolding hi tm by (rule stable_hi)
  have rest: "pending alice_bob_typing = []" "decrypt_calls alice_bob_typing = []"
    "peer_id alice_bob_typing = js ''alice''"
    by (simp_all add: alice_bob_typing_def alice_two_chats_def alice_def initial_def)
  have ty: "className typing_node = js ''typing''" by (simp add: typing_node_def)
  note th = edit_resolves_globally [OF ev key ct pt target el plain_alice_bob_typing tx,
      of "([], [])"]
  from th [THEN conjunct2, THEN conjunct2, THEN conjunct2, THEN conjunct2, THEN conjunct2,
      THEN conjunct2, THEN conjunct2, THEN conjunct2, THEN conjunct2, THEN conjunct1]
  have "onData toy_platform alice_bob_typing edit_m1 ([], []) =
       (alice_bob_typing
          \<lparr>document :=
             [id_element,
              \<lparr>view_id = js ''bob'', summary = js ''alice'',
               children = [header (js ''bob'')], sendBar = [], page_element = False\<rparr>,
              \<lparr>view_id = js ''carol'', summary = js ''alice'',
               children = [header (js ''carol''),
                           hello\<lparr>innerHTML := js ''hi'' @ time_suffix (js ''edited at 10:05'')\<rparr>],
               sendBar = [], page_element = False\<rparr>],
           pending :=
             [(js ''bob'',
               \<lparr>md_from = js ''alice'', md_body = [], md_time = [], md_id = js ''m1'',
                md_event = Some Delivered, md_prev = None\<rparr>)],
           decrypt_calls := [([7], [9], [105, 106])]\<rparr>,
        Inr ())"
    unfolding hi tm doc rest Let_def by (simp add: ty)
  with ev key ct pt target el plain_alice_bob_typing tx show ?thesis by (intro conjI)
qed

subsection \<open>Starting an edit by double click\<close>

lemma restore_previous_fields:
  assumes "restore_previous s = (s1, r)"
  shows "replying s1 = replying s" "editing s1 = editing s" "aesKeys s1 = aesKeys s"
    "pending s1 = pending s" "wire s1 = wire s" "decrypt_calls s1 = decrypt_calls s"
    "peer_id s1 = peer_id s" "keyPair s1 = keyPair s"
  using assms
  by (auto simp: restore_previous_def split: if_splits option.splits ref.splits)

lemma restore_previous_cases:
  assumes "restore_previous s = (s1, r)"
  obtains "s1 = s"
  | a b h where "s1 = update_chat s a (\<lambda>c. set_child_html b (h c) c)"
  using assms
  by (auto simp: restore_previous_def split: if_splits option.splits ref.splits)

lemma restore_previous_shape:
  assumes "restore_previous s = (s1, r)"
  shows "length (document s1) = length (document s)"
    and "length (children (document s1 ! k)) = length (children (document s ! k))"
    and "className (children (document s1 ! k) ! i) = className (children (document s ! k) ! i)"
    and "elem_id (children (document s1 ! k) ! i) = elem_id (children (document s ! k) ! i)"
proof -
  from assms show "length (document s1) = length (document s)"
    by (cases rule: restore_previous_cases) simp_all
  from assms show "length (children (document s1 ! k)) = length (children (document s ! k))"
  proof (cases rule: restore_previous_cases)
    case (2 a b h)
    then show ?thesis
      using nth_update_proj [of "\<lambda>c. length (children c)" "\<lambda>c. set_child_html b (h c) c"
          "document s" a k] by simp
  qed simp
  from assms show "className (children (document s1 ! k) ! i) = className (children (document s ! k) ! i)"
  proof (cases rule: restore_previous_cases)
    case (2 a b h)
    then show ?thesis
      using nth_update_proj [of "\<lambda>c. className (children c ! i)" "\<lambda>c. set_child_html b (h c) c"
          "document s" a k] by simp
  qed simp
  from assms show "elem_id (children (document s1 ! k) ! i) = elem_id (children (document s ! k) ! i)"
  proof (cases rule: restore_previous_cases)
    case (2 a b h)
    then show ?thesis
      using nth_update_proj [of "\<lambda>c. elem_id (children c ! i)" "\<lambda>c. set_child_html b (h c) c"
          "document s" a k] by simp
  qed simp
qed

text \<open>What the restoration does to the document: nothing, or the editing mark of the node
  named by \<open>editing\<close> becomes a delivered mark.\<close>

lemma restore_previous_document:
  assumes "restore_previous s = (s1, Inr ())"
  shows "if truthy (editing s) then
           (\<exists>e a b. editing s = Some e \<and> getElementById (document s) e = Some (RNode a b)
              \<and> document s1 = (document s)
                   [a := set_child_html b
                           (replace_tail (innerHTML (children (document s ! a) ! b))
                              editing_mark delivered_mark) (document s ! a)])
         else s1 = s"
  using assms
  by (auto simp: restore_previous_def truthy_def split: if_splits option.splits ref.splits)

lemma restore_previous_idle: "\<not> truthy (editing s) \<Longrightarrow> restore_previous s = (s, Inr ())"
  by (simp add: restore_previous_def)

lemma replace_tail_endsWith:
  "endsWith s old \<Longrightarrow> s = take (length s - length old) s @ old"
  by (metis append_take_drop_id endsWith_def)

lemma hello_unmarked: "\<not> endsWith (innerHTML hello) delivered_mark"
  by (simp add: endsWith_def hello_def delivered_mark_def time_suffix_def small_open_def
      small_close_def js_def)

lemma endsWith_append [simp]: "endsWith (s @ t) t"
  by (simp add: endsWith_def)

lemma endsWith_append2 [simp]: "endsWith (a @ b @ t) t"
  by (simp add: endsWith_def)

text \<open>
  Claim C4, as the code has it. A double click on a sent node of a chat block first
  clears the \<open>replying\<close> cursor. If the \<open>editing\<close> cursor is set, the element it
  names is looked up in the whole document: when there is none, the handler throws a
  \<open>TypeError\<close> at this point; when it is child \<open>b\<close> of block \<open>a\<close>, a trailing
  editing mark of that child becomes a delivered mark (\<open>d1\<close> is the document after
  this step). If the double-clicked node then does not end with the delivered mark,
  the handler throws \<open>Error('Cannot Edit Non-Delivered Message.')\<close>; \<open>replying\<close>
  stays cleared, the document stays \<open>d1\<close>, and nothing else but the \<open>editing\<close>
  cursor can differ from the state before. If the node ends with the delivered mark,
  the handler succeeds: the mark is replaced by the editing mark, \<open>editing\<close> is the
  id of the node, and the input box holds the content without its suffixes.

  The state is plain, and the \<open>editing\<close> cursor does not name a block.
\<close>

theorem dblclick_edit:
  assumes node: "sent_node st k i"
    and chat: "\<not> page_element (document st ! k)"
    and prev: "getElementById (document st) (case editing st of Some e \<Rightarrow> e | None \<Rightarrow> []) =
                 (case prev of None \<Rightarrow> None | Some (a, b) \<Rightarrow> Some (RNode a b))"
    and pl: "plain st"
  shows "let d1 = (case prev of
                     None \<Rightarrow> document st
                   | Some (a, b) \<Rightarrow>
                       (document st)
                         [a := (document st ! a)
                            \<lparr>children := (children (document st ! a))
                               [b := (children (document st ! a) ! b)
                                  \<lparr>innerHTML :=
                                     (let h = innerHTML (children (document st ! a) ! b)
                                      in if endsWith h editing_mark
                                         then take (length h - length editing_mark) h
                                                @ delivered_mark
                                         else h)\<rparr>]\<rparr>]);
             p = children (d1 ! k) ! i;
             base = take (length (innerHTML p) - length delivered_mark) (innerHTML p)
         in if truthy (editing st) \<and> prev = None then
              ondblclick st k i = (st\<lparr>replying := None\<rparr>, Inl TypeError)
            else if endsWith (innerHTML p) delivered_mark then
              ondblclick st k i =
                (st\<lparr>replying := None, editing := Some (elem_id p),
                    document :=
                      d1[k := (d1 ! k)
                           \<lparr>children := (children (d1 ! k))
                              [i := p\<lparr>innerHTML := base @ editing_mark\<rparr>],
                            sendBar := input_value (strip_suffixes (base @ editing_mark))\<rparr>]\<rparr>,
                 Inr ())
            else
              snd (ondblclick st k i) = Inl (Error (js ''Cannot Edit Non-Delivered Message.''))
              \<and> (\<exists>e. fst (ondblclick st k i)
                         = st\<lparr>replying := None, document := d1, editing := e\<rparr>)"
proof -
  have k: "k < length (document st)" using node by (simp add: sent_node_def)
  show ?thesis
  proof (cases "truthy (editing st)")
    case False
    then have "getElementById (document st) (case editing st of Some e \<Rightarrow> e | None \<Rightarrow> []) = None"
      by (auto simp: truthy_def getElementById_def split: option.splits)
    with prev have pn: "prev = None" by (cases prev) auto
    have rp: "restore_previous (st\<lparr>replying := None\<rparr>) = (st\<lparr>replying := None\<rparr>, Inr ())"
      using False by (simp add: restore_previous_def)
    show ?thesis
      using False k chat
      by (auto simp: pn ondblclick_def rp Let_def replace_tail_def update_chat_def
          set_child_html_def)
  next
    case True
    show ?thesis
    proof (cases prev)
      case None
      with prev True have
        "restore_previous (st\<lparr>replying := None\<rparr>) = (st\<lparr>replying := None\<rparr>, Inl TypeError)"
        by (simp add: restore_previous_def)
      with True None show ?thesis by (simp add: ondblclick_def)
    next
      case (Some ab)
      obtain a b where ab: "ab = (a, b)" by (cases ab)
      define h where "h = innerHTML (children (document st ! a) ! b)"
      define ca where "ca = (document st ! a)
          \<lparr>children := (children (document st ! a))
             [b := (children (document st ! a) ! b)
                \<lparr>innerHTML := (if endsWith h editing_mark
                                then take (length h - length editing_mark) h @ delivered_mark
                                else h)\<rparr>]\<rparr>"
      define d1 where "d1 = (document st)[a := ca]"
      have lk: "getElementById (document st) (case editing st of Some e \<Rightarrow> e | None \<Rightarrow> [])
                  = Some (RNode a b)"
        using prev Some ab by simp
      have rp: "restore_previous (st\<lparr>replying := None\<rparr>)
                  = (st\<lparr>replying := None, document := d1\<rparr>, Inr ())"
        using True lk
        by (simp add: restore_previous_def update_chat_def set_child_html_def replace_tail_def
            d1_def ca_def h_def)
      have k1: "k < length d1" using k by (simp add: d1_def)
      have pe: "\<not> page_element (d1 ! k)"
        using chat k by (cases "a = k") (simp_all add: d1_def ca_def)
      have res: "ondblclick st k i =
          (let p = children (d1 ! k) ! i;
               base = take (length (innerHTML p) - length delivered_mark) (innerHTML p)
           in if endsWith (innerHTML p) delivered_mark then
                (st\<lparr>replying := None, editing := Some (elem_id p),
                    document :=
                      d1[k := (d1 ! k)
                           \<lparr>children := (children (d1 ! k))
                              [i := p\<lparr>innerHTML := base @ editing_mark\<rparr>],
                            sendBar := input_value (strip_suffixes (base @ editing_mark))\<rparr>]\<rparr>,
                 Inr ())
              else (st\<lparr>replying := None, document := d1, editing := Some (elem_id p)\<rparr>,
                    Inl (Error (js ''Cannot Edit Non-Delivered Message.''))))"
        using k1 pe
        by (simp add: ondblclick_def rp Let_def replace_tail_def update_chat_def
            set_child_html_def)
      have d1': "(case prev of
                     None \<Rightarrow> document st
                   | Some (a, b) \<Rightarrow>
                       (document st)
                         [a := (document st ! a)
                            \<lparr>children := (children (document st ! a))
                               [b := (children (document st ! a) ! b)
                                  \<lparr>innerHTML :=
                                     (let h = innerHTML (children (document st ! a) ! b)
                                      in if endsWith h editing_mark
                                         then take (length h - length editing_mark) h
                                                @ delivered_mark
                                         else h)\<rparr>]\<rparr>]) = d1"
        by (simp add: Some ab d1_def ca_def h_def Let_def)
      show ?thesis
        unfolding d1' using Some res
        by (cases "endsWith (innerHTML (children (d1 ! k) ! i)) delivered_mark")
           (auto simp: Let_def)
    qed
  qed
qed

text \<open>At \<open>alice_editing\<close>: the double click on the acknowledged message \<open>m1\<close> gives
  the earlier message \<open>m0\<close> its delivered mark back and starts the edit of \<open>m1\<close>.\<close>

lemma alice_editing_doc:
  "document alice_editing =
     [\<lparr>view_id = js ''bob'', summary = js ''alice'',
       children = [header (js ''bob''), earlier,
                   hello\<lparr>innerHTML := innerHTML hello @ delivered_mark\<rparr>],
       sendBar = [], page_element = False\<rparr>]"
  "editing alice_editing = Some (js ''m0'')"
  "replying alice_editing = Some (js ''m0'')"
  by (simp_all add: alice_editing_def)

lemma earlier_marked:
  "endsWith (innerHTML earlier) editing_mark"
  "take (length (innerHTML earlier) - length editing_mark) (innerHTML earlier)
     = js ''first'' @ time_suffix (js ''09:59'')"
  "elem_id earlier = js ''m0''" "className earlier = js ''sent''"
  by (simp_all add: earlier_def endsWith_def)

lemma hello_fields:
  "elem_id hello = js ''m1''" "className hello = js ''sent''"
  "innerHTML hello = js ''hello'' @ time_suffix (js ''10:00'')"
  by (simp_all add: hello_def)

lemma strip_hello:
  "input_value (strip_suffixes (js ''hello'' @ time_suffix (js ''10:00'') @ editing_mark))
     = js ''hello''"
  by (simp add: input_value_def suffix_group_def endsWith_def line_terminator_def
      editing_mark_def time_suffix_def small_open_def small_close_def js_def)

lemma plain_alice_editing: "plain alice_editing" "plain alice_editing_unacked"
  by (simp_all add: plain_def plain_block_def alice_editing_def alice_editing_unacked_def
      alice_def initial_def header_def hello_def earlier_def stable_html_def js_def
      inert_char_def time_suffix_def small_open_def small_close_def editing_mark_def
      delivered_mark_def)

theorem dblclick_edit_witness:
  "sent_node alice_editing 0 2
   \<and> \<not> page_element (document alice_editing ! 0)
   \<and> editing alice_editing = Some (js ''m0'')
   \<and> getElementById (document alice_editing) (js ''m0'') = Some (RNode 0 1)
   \<and> plain alice_editing
   \<and> ondblclick alice_editing 0 2 =
       (alice_editing
          \<lparr>replying := None, editing := Some (js ''m1''),
           document :=
             [\<lparr>view_id = js ''bob'', summary = js ''alice'',
               children =
                 [header (js ''bob''),
                  earlier\<lparr>innerHTML := js ''first'' @ time_suffix (js ''09:59'') @ delivered_mark\<rparr>,
                  hello\<lparr>innerHTML := innerHTML hello @ editing_mark\<rparr>],
               sendBar = js ''hello'', page_element = False\<rparr>]\<rparr>,
        Inr ())"
proof -
  note d = alice_editing_doc
  have n: "sent_node alice_editing 0 2"
    by (simp add: sent_node_def d hello_fields)
  have c: "\<not> page_element (document alice_editing ! 0)" by (simp add: d)
  have lk: "getElementById (document alice_editing) (js ''m0'') = Some (RNode 0 1)"
    by (simp add: d getElementById_def header_def earlier_def js_def)
  have prev: "getElementById (document alice_editing)
                (case editing alice_editing of Some e \<Rightarrow> e | None \<Rightarrow> []) =
              (case Some (0, 1) of None \<Rightarrow> None | Some (a, b) \<Rightarrow> Some (RNode a b))"
    by (simp add: d(2) lk)
  have tr: "truthy (editing alice_editing)" by (simp add: d truthy_def js_def)
  from dblclick_edit [OF n c prev plain_alice_editing(1)]
  have "ondblclick alice_editing 0 2 =
       (alice_editing
          \<lparr>replying := None, editing := Some (js ''m1''),
           document :=
             [\<lparr>view_id = js ''bob'', summary = js ''alice'',
               children =
                 [header (js ''bob''),
                  earlier\<lparr>innerHTML := js ''first'' @ time_suffix (js ''09:59'') @ delivered_mark\<rparr>,
                  hello\<lparr>innerHTML := innerHTML hello @ editing_mark\<rparr>],
               sendBar = js ''hello'', page_element = False\<rparr>]\<rparr>,
        Inr ())"
    unfolding Let_def d
    by (simp add: tr earlier_marked hello_fields strip_hello)
  with n c lk plain_alice_editing(1) d(2) show ?thesis by (intro conjI)
qed

text \<open>
  Claim C4 as stated fails: the double click on the unacknowledged message \<open>m1\<close> of
  \<open>alice_editing_unacked\<close> throws an \<open>Error\<close>, and yet the \<open>replying\<close> cursor
  \<open>m0\<close> is gone, \<open>editing\<close> has moved from \<open>m0\<close> to \<open>m1\<close>, and \<open>m0\<close> has its
  delivered mark back.
\<close>

theorem dblclick_unacknowledged_changes_cursors:
  "sent_node alice_editing_unacked 0 2
   \<and> \<not> endsWith (innerHTML (children (document alice_editing_unacked ! 0) ! 2)) delivered_mark
   \<and> replying alice_editing_unacked = Some (js ''m0'')
   \<and> editing alice_editing_unacked = Some (js ''m0'')
   \<and> ondblclick alice_editing_unacked 0 2 =
       (alice_editing_unacked
          \<lparr>replying := None, editing := Some (js ''m1''),
           document :=
             [\<lparr>view_id = js ''bob'', summary = js ''alice'',
               children =
                 [header (js ''bob''),
                  earlier\<lparr>innerHTML := js ''first'' @ time_suffix (js ''09:59'') @ delivered_mark\<rparr>,
                  hello],
               sendBar = [], page_element = False\<rparr>]\<rparr>,
        Inl (Error (js ''Cannot Edit Non-Delivered Message.'')))"
proof -
  have d: "document alice_editing_unacked =
     [\<lparr>view_id = js ''bob'', summary = js ''alice'',
       children = [header (js ''bob''), earlier, hello],
       sendBar = [], page_element = False\<rparr>]"
    and e: "editing alice_editing_unacked = Some (js ''m0'')"
    and r: "replying alice_editing_unacked = Some (js ''m0'')"
    by (simp_all add: alice_editing_unacked_def)
  have n: "sent_node alice_editing_unacked 0 2"
    by (simp add: sent_node_def d hello_fields)
  have u: "\<not> endsWith (innerHTML (children (document alice_editing_unacked ! 0) ! 2)) delivered_mark"
    using hello_unmarked by (simp add: d)
  have lk: "getElementById (document alice_editing_unacked) (js ''m0'') = Some (RNode 0 1)"
    by (simp add: d getElementById_def header_def earlier_def js_def)
  have tr: "truthy (Some (js ''m0''))" by (simp add: truthy_def js_def)
  have rp: "restore_previous (alice_editing_unacked\<lparr>replying := None\<rparr>) =
      (alice_editing_unacked
         \<lparr>replying := None,
          document :=
            [\<lparr>view_id = js ''bob'', summary = js ''alice'',
              children =
                [header (js ''bob''),
                 earlier\<lparr>innerHTML := js ''first'' @ time_suffix (js ''09:59'') @ delivered_mark\<rparr>,
                 hello],
              sendBar = [], page_element = False\<rparr>]\<rparr>, Inr ())"
    by (simp add: restore_previous_def e tr lk [unfolded d] update_chat_def set_child_html_def
        replace_tail_def earlier_marked d)
  have "ondblclick alice_editing_unacked 0 2 =
       (alice_editing_unacked
          \<lparr>replying := None, editing := Some (js ''m1''),
           document :=
             [\<lparr>view_id = js ''bob'', summary = js ''alice'',
               children =
                 [header (js ''bob''),
                  earlier\<lparr>innerHTML := js ''first'' @ time_suffix (js ''09:59'') @ delivered_mark\<rparr>,
                  hello],
               sendBar = [], page_element = False\<rparr>]\<rparr>,
        Inl (Error (js ''Cannot Edit Non-Delivered Message.'')))"
    using hello_unmarked by (simp add: ondblclick_def rp Let_def hello_fields)
  with n u r e show ?thesis by (intro conjI)
qed

subsection \<open>The typing indicator stays last\<close>

lemma views_ok_document: "document st' = document st \<Longrightarrow> views_ok st' = views_ok st"
  by (simp add: views_ok_def)

lemma views_ok_update:
  assumes "views_ok st" and "k < length (document st) \<Longrightarrow> typing_last (f (document st ! k))"
  shows "views_ok (update_chat st k f)"
proof -
  have "typing_last ((document st)[k := f (document st ! k)] ! n)"
    if "n < length (document st)" for n
  proof (cases "n = k")
    case True
    then show ?thesis using assms(2) that by simp
  next
    case False
    then show ?thesis using assms(1) that by (simp add: views_ok_def list_all_length)
  qed
  then show ?thesis by (simp add: views_ok_def list_all_length)
qed

lemma typing_last_nth:
  "typing_last c = (\<forall>m. Suc m < length (children c) \<longrightarrow> \<not> is_typing (children c ! m))"
proof -
  have "typing_last c = (\<forall>m < length (children c) - 1. \<not> is_typing (butlast (children c) ! m))"
    by (simp add: typing_last_def list_all_length)
  also have "\<dots> = (\<forall>m < length (children c) - 1. \<not> is_typing (children c ! m))"
    by (simp add: nth_butlast)
  also have "\<dots> = (\<forall>m. Suc m < length (children c) \<longrightarrow> \<not> is_typing (children c ! m))"
    by (auto simp: less_diff_conv)
  finally show ?thesis .
qed

lemma typing_last_removeTyping: "typing_last c \<Longrightarrow> typing_last (removeTyping c)"
  by (auto simp: typing_last_def removeTyping_def list_all_iff dest: in_set_butlastD)

lemma removeTyping_no_typing:
  assumes "typing_last c"
  shows "\<not> lastChild_typing (removeTyping c)"
proof (cases "lastChild_typing c")
  case True
  show ?thesis
  proof
    assume l: "lastChild_typing (removeTyping c)"
    then have ne: "butlast (children c) \<noteq> []"
      and t: "is_typing (last (butlast (children c)))"
      using True by (simp_all add: removeTyping_def lastChild_typing_def is_typing_def)
    from ne have "last (butlast (children c)) \<in> set (butlast (children c))" by simp
    with assms t show False by (simp add: typing_last_def list_all_iff)
  qed
next
  case False
  then show ?thesis by (simp add: removeTyping_def)
qed

lemma typing_last_appendChild:
  assumes "typing_last c" and "\<not> lastChild_typing c"
  shows "typing_last (appendChild n c)"
proof (cases "children c = []")
  case True
  then show ?thesis by (simp add: typing_last_def appendChild_def)
next
  case False
  then have "children c = butlast (children c) @ [last (children c)]" by simp
  then have "set (children c) = set (butlast (children c)) \<union> {last (children c)}"
    by (metis list.set(1) list.simps(15) set_append Un_insert_right sup_bot.right_neutral)
  moreover have "\<not> is_typing (last (children c))"
    using assms(2) False by (simp add: lastChild_typing_def is_typing_def)
  ultimately show ?thesis
    using assms(1) by (auto simp: typing_last_def appendChild_def list_all_iff)
qed

lemma typing_last_insertBeforeLast:
  assumes "typing_last c" and "\<not> is_typing n" and "children c \<noteq> []"
  shows "typing_last (insertBeforeLast n c)"
proof -
  have "butlast (butlast (children c) @ [n, last (children c)]) = butlast (children c) @ [n]"
    by (simp add: butlast_append)
  then show ?thesis
    using assms by (simp add: typing_last_def insertBeforeLast_def)
qed

lemma typing_last_set_child_html: "typing_last c \<Longrightarrow> typing_last (set_child_html i h c)"
  by (simp add: typing_last_nth is_typing_def)

lemma typing_last_sendBar [simp]: "typing_last (c\<lparr>sendBar := s\<rparr>) = typing_last c"
  by (simp add: typing_last_def)

lemma typing_last_single [simp]: "typing_last (c\<lparr>children := [n]\<rparr>)"
  by (simp add: typing_last_def)


lemma document_send [simp]: "document (send st to md) = document st"
  by (simp add: send_def)

lemma views_ok_send [simp]: "views_ok (send st to md) = views_ok st"
  by (simp add: views_ok_def)

lemma decrypt_body_document [simp]: "document (fst (decrypt_body P st p b)) = document st"
  by (simp add: decrypt_body_def Let_def split: option.splits sum.splits prod.splits)

lemma decrypt_text_document: "decrypt_text P st p b = (st1, r) \<Longrightarrow> document st1 = document st"
proof -
  assume a: "decrypt_text P st p b = (st1, r)"
  obtain s1 r1 where d: "decrypt_body P st p b = (s1, r1)"
    by (cases "decrypt_body P st p b")
  from decrypt_body_document [of P st p b] d have "document s1 = document st" by simp
  moreover from a d have "st1 = s1" by (cases r1) (simp_all add: decrypt_text_def)
  ultimately show ?thesis by simp
qed

lemma views_ok_createChat: "views_ok st \<Longrightarrow> views_ok (fst (createChat st to b))"
  by (simp add: createChat_def Let_def views_ok_def typing_last_def send_def
      split: sum.splits)

lemma views_ok_nth: "views_ok st \<Longrightarrow> k < length (document st) \<Longrightarrow> typing_last (document st ! k)"
  by (simp add: views_ok_def list_all_length)

lemma views_ok_set_innerHTML: "views_ok st \<Longrightarrow> views_ok (fst (set_innerHTML st r tx t))"
proof (cases r)
  case (RView k)
  assume ok: "views_ok st"
  have "views_ok (update_chat st k
          (\<lambda>c. c\<lparr>children := [\<lparr>elem_id = [], className = [], innerHTML = small_inner t\<rparr>]\<rparr>))"
    using ok by (rule views_ok_update) simp
  then show ?thesis using ok by (simp add: set_innerHTML_def RView)
next
  case (RNode k i)
  assume ok: "views_ok st"
  have "views_ok (update_chat st k (set_child_html i (tx @ time_suffix t)))"
    using ok by (rule views_ok_update) (simp add: typing_last_set_child_html views_ok_nth [OF ok])
  then show ?thesis by (simp add: set_innerHTML_def RNode)
qed

lemma views_ok_onRSAKeyShare: "views_ok st \<Longrightarrow> views_ok (fst (onRSAKeyShare P st md f))"
  by (simp add: onRSAKeyShare_def Let_def views_ok_def send_def split: sum.splits option.splits)

lemma views_ok_onAESKeyShare: "views_ok st \<Longrightarrow> views_ok (fst (onAESKeyShare P st md))"
  by (simp add: onAESKeyShare_def views_ok_def split: sum.splits option.splits prod.splits)

lemma views_ok_onTyping: "views_ok st \<Longrightarrow> views_ok (fst (onTyping st k md))"
  by (auto simp: onTyping_def intro!: views_ok_update typing_last_appendChild views_ok_nth)

lemma views_ok_onStopTyping: "views_ok st \<Longrightarrow> views_ok (fst (onStopTyping st k))"
  by (auto simp: onStopTyping_def intro!: views_ok_update typing_last_removeTyping views_ok_nth)

lemma views_ok_onDelivered: "views_ok st \<Longrightarrow> views_ok (fst (onDelivered st k md))"
  by (auto simp: onDelivered_def Let_def
      intro!: views_ok_update typing_last_set_child_html views_ok_nth)

lemma views_ok_in_view:
  "views_ok st \<Longrightarrow> (\<And>k. views_ok (fst (f k))) \<Longrightarrow> views_ok (fst (in_view st el f))"
  by (simp add: in_view_def split: ref.splits)

lemma views_ok_onEdit:
  assumes "views_ok st"
  shows "views_ok (fst (onEdit P st el md))"
proof -
  obtain st1 r where d: "decrypt_text P st (md_from md) (md_body md) = (st1, r)"
    by (cases "decrypt_text P st (md_from md) (md_body md)")
  from decrypt_text_document [OF d] assms have ok1: "views_ok st1"
    by (simp add: views_ok_def)
  show ?thesis
  proof (cases r)
    case (Inl e)
    then show ?thesis using d ok1 by (simp add: onEdit_def)
  next
    case (Inr tx)
    show ?thesis
    proof (cases "getElementById (document st) (md_id md)")
      case None
      then show ?thesis using d Inr ok1 by (simp add: onEdit_def)
    next
      case (Some r)
      obtain st2 r2 where s: "set_innerHTML st1 r tx (md_time md) = (st2, r2)"
        by (cases "set_innerHTML st1 r tx (md_time md)")
      have ok2: "views_ok st2"
        using views_ok_set_innerHTML [OF ok1, of r tx "md_time md"] s by simp
      have "views_ok (fst (in_view st2 el
                        (\<lambda>k. (send (update_chat st2 k removeTyping) (md_from md)
                                 (control st2 (md_id md) Delivered),
                               Inr ()))))"
        by (rule views_ok_in_view [OF ok2])
          (auto intro!: views_ok_update typing_last_removeTyping views_ok_nth ok2)
      then show ?thesis using d Inr Some s ok2
        by (cases r2) (simp_all add: onEdit_def Let_def)
    qed
  qed
qed

lemma views_ok_onMessage:
  assumes "views_ok st"
  shows "views_ok (fst (onMessage P st el md))"
proof -
  obtain st1 r where d: "decrypt_text P st (md_from md) (md_body md) = (st1, r)"
    by (cases "decrypt_text P st (md_from md) (md_body md)")
  from decrypt_text_document [OF d] assms have ok1: "views_ok st1"
    by (simp add: views_ok_def)
  show ?thesis
  proof (cases r)
    case (Inl e)
    then show ?thesis using d ok1 by (simp add: onMessage_def)
  next
    case (Inr tx)
    have "views_ok (update_chat (send (update_chat st1 k removeTyping) to md') k (appendChild n))"
      for k to md' n
    proof (rule views_ok_update)
      show "views_ok (send (update_chat st1 k removeTyping) to md')"
        by (auto intro!: views_ok_update typing_last_removeTyping views_ok_nth ok1)
    next
      assume "k < length (document (send (update_chat st1 k removeTyping) to md'))"
      then have k: "k < length (document st1)" by simp
      then have "document (send (update_chat st1 k removeTyping) to md') ! k
          = removeTyping (document st1 ! k)" by simp
      moreover have "typing_last (document st1 ! k)" by (rule views_ok_nth [OF ok1 k])
      ultimately show "typing_last (appendChild n
          (document (send (update_chat st1 k removeTyping) to md') ! k))"
        by (simp add: typing_last_appendChild typing_last_removeTyping removeTyping_no_typing)
    qed
    then have "views_ok (fst (in_view st1 el
            (\<lambda>k. (let st2 = update_chat st1 k removeTyping;
                       st3 = send st2 (md_from md) (control st2 (md_id md) Delivered)
                   in update_chat st3 k
                        (appendChild \<lparr>elem_id = md_id md, className = js ''received'',
                                      innerHTML = tx @ time_suffix (md_time md)\<rparr>),
                   Inr ()))))"
      by (intro views_ok_in_view [OF ok1]) (simp add: Let_def)
    then show ?thesis using d Inr by (simp add: onMessage_def)
  qed
qed

lemma views_ok_dispatch: "views_ok st \<Longrightarrow> views_ok (fst (dispatch P st el md f))"
  by (auto simp: dispatch_def split: option.splits MessageDataEvent.splits
      intro!: views_ok_onRSAKeyShare views_ok_onAESKeyShare views_ok_in_view
        views_ok_onTyping views_ok_onStopTyping views_ok_onDelivered views_ok_onEdit
        views_ok_onMessage)

lemma views_ok_onData: "views_ok st \<Longrightarrow> views_ok (fst (onData P st md f))"
proof -
  assume ok: "views_ok st"
  show ?thesis
  proof (cases "getElementById (document st) (md_from md)")
    case None
    obtain st1 r where c: "createChat st (md_from md) False = (st1, r)"
      by (cases "createChat st (md_from md) False")
    with views_ok_createChat [OF ok, of "md_from md" False] have "views_ok st1" by simp
    then show ?thesis using None c views_ok_dispatch [of st1]
      by (simp add: onData_def split: sum.splits)
  next
    case (Some el)
    then show ?thesis using views_ok_dispatch [OF ok] by (simp add: onData_def)
  qed
qed

lemma views_ok_echoEdit:
  assumes "views_ok st"
  shows "views_ok (fst (echoEdit P st to md))"
proof -
  obtain st1 r where d: "decrypt_text P st to (md_body md) = (st1, r)"
    by (cases "decrypt_text P st to (md_body md)")
  from decrypt_text_document [OF d] assms have ok1: "views_ok st1"
    by (simp add: views_ok_def)
  show ?thesis
    using d ok1 views_ok_set_innerHTML [OF ok1]
    by (cases r) (simp_all add: echoEdit_def Let_def split: option.splits)
qed

lemma views_ok_insertSent:
  assumes ok: "views_ok st" and n: "className n = js ''sent''"
  shows "views_ok (fst (insertSent st to n))"
proof -
  have nt: "\<not> is_typing n" using n typing_class_distinct by (simp add: is_typing_def)
  have "views_ok (fst (if lastChild_typing (document st ! k)
                   then update_chat st k (insertBeforeLast n)
                   else update_chat st k (appendChild n), Inr ()))" for k
  proof (cases "lastChild_typing (document st ! k)")
    case True
    then have "children (document st ! k) \<noteq> []" by (simp add: lastChild_typing_def)
    then show ?thesis using True
      by (auto intro!: views_ok_update typing_last_insertBeforeLast views_ok_nth ok nt)
  next
    case False
    then show ?thesis
      by (auto intro!: views_ok_update typing_last_appendChild views_ok_nth ok)
  qed
  then show ?thesis
    using ok
    by (auto simp: insertSent_def split: option.splits intro!: views_ok_in_view)
qed

lemma views_ok_echoMessage:
  assumes "views_ok st"
  shows "views_ok (fst (echoMessage P st to md))"
proof (cases "md_event md \<noteq> Some Delivered")
  case True
  obtain st1 r where d: "decrypt_text P st to (md_body md) = (st1, r)"
    by (cases "decrypt_text P st to (md_body md)")
  from decrypt_text_document [OF d] assms have ok1: "views_ok st1"
    by (simp add: views_ok_def)
  show ?thesis
    using True d ok1 views_ok_insertSent [OF ok1]
    by (cases r) (simp_all add: echoMessage_def)
next
  case False
  then show ?thesis
    using views_ok_insertSent [OF assms] by (simp add: echoMessage_def)
qed

lemma views_ok_echo: "views_ok st \<Longrightarrow> views_ok (fst (echo P st to md))"
  by (auto simp: echo_def split: option.splits MessageDataEvent.splits
      intro!: views_ok_echoEdit views_ok_echoMessage)

lemma views_ok_onOpen:
  assumes "views_ok st"
  shows "views_ok (fst (onOpen P st to md))"
proof -
  let ?st = "st\<lparr>wire := wire st @ [(to, md)]\<rparr>"
  have ok: "views_ok ?st" using assms by (simp add: views_ok_def)
  obtain st1 r where e: "echo P ?st to md = (st1, r)" by (cases "echo P ?st to md")
  with views_ok_echo [OF ok, of P to md] have "views_ok st1" by simp
  then show ?thesis using e by (cases r) (simp_all add: onOpen_def views_ok_def)
qed

lemma views_ok_onkeydown:
  assumes "views_ok st"
  shows "views_ok (fst (onkeydown P st k ky now uuid))"
proof -
  have u: "views_ok (update_chat s k (\<lambda>c. c\<lparr>sendBar := v\<rparr>))" if "views_ok s" for s v
    using that by (auto intro!: views_ok_update views_ok_nth)
  have "views_ok ((update_chat (send (update_chat st k (\<lambda>c. c\<lparr>sendBar := b\<rparr>)) to md) k
      (\<lambda>c. c\<lparr>sendBar := []\<rparr>))\<lparr>replying := None\<rparr>)" for b to md
  proof -
    have "views_ok (update_chat (send (update_chat st k (\<lambda>c. c\<lparr>sendBar := b\<rparr>)) to md) k
      (\<lambda>c. c\<lparr>sendBar := []\<rparr>))"
      by (intro u) (simp add: u [OF assms])
    then show ?thesis by (simp add: views_ok_def)
  qed
  then show ?thesis
    using assms
    by (simp add: onkeydown_def Let_def split: sum.splits)
qed

lemma views_ok_onclick: "views_ok st \<Longrightarrow> views_ok (fst (onclick st k i))"
  by (simp add: onclick_def views_ok_def Let_def)

lemma views_ok_restore_previous: "views_ok st \<Longrightarrow> views_ok (fst (restore_previous st))"
  by (auto simp: restore_previous_def split: option.splits ref.splits
      intro!: views_ok_update typing_last_set_child_html views_ok_nth)

lemma views_ok_ondblclick:
  assumes "views_ok st"
  shows "views_ok (fst (ondblclick st k i))"
proof -
  have ok0: "views_ok (st\<lparr>replying := None\<rparr>)" using assms by (simp add: views_ok_def)
  obtain st1 r where rp: "restore_previous (st\<lparr>replying := None\<rparr>) = (st1, r)"
    by (cases "restore_previous (st\<lparr>replying := None\<rparr>)")
  with views_ok_restore_previous [OF ok0] have ok1: "views_ok st1" by simp
  have ok2: "views_ok (st1\<lparr>editing := e\<rparr>)" for e using ok1 by (simp add: views_ok_def)
  have ok3: "views_ok (update_chat (st1\<lparr>editing := e\<rparr>) k (set_child_html i h))" for e h
    by (auto intro!: views_ok_update typing_last_set_child_html views_ok_nth ok2)
  have "views_ok (update_chat (update_chat (st1\<lparr>editing := e\<rparr>) k (set_child_html i h)) k
      (\<lambda>c. c\<lparr>sendBar := v\<rparr>))" for e h v
    by (rule views_ok_update [OF ok3])
      (simp add: typing_last_set_child_html views_ok_nth [OF ok1])
  then show ?thesis using rp ok1 ok2 ok3
    by (cases r) (simp_all add: ondblclick_def Let_def)
qed

lemma views_ok_step: "views_ok st \<Longrightarrow> views_ok (step P st ev)"
proof (cases ev)
  case (ChannelOpen n)
  assume ok: "views_ok st"
  then have "views_ok (st\<lparr>pending := remove_nth n (pending st)\<rparr>)"
    by (simp add: views_ok_def)
  from views_ok_onOpen [OF this] ok show ?thesis
    unfolding ChannelOpen by simp
next
  case (Input k s)
  assume "views_ok st"
  then show ?thesis unfolding Input
    by (auto intro!: views_ok_update views_ok_nth)
qed (simp_all add: views_ok_onData views_ok_createChat views_ok_onkeydown views_ok_onclick
      views_ok_ondblclick, simp add: views_ok_def)

lemma run_append: "run P st (evs @ [ev]) = step P (run P st evs) ev"
  by (induction evs arbitrary: st) simp_all


lemma views_ok_run: "views_ok st \<Longrightarrow> views_ok (run P st evs)"
  by (induction evs arbitrary: st) (simp_all add: views_ok_step)

lemma views_ok_initial: "list_all typing_last page \<Longrightarrow> views_ok (initial pid kp page)"
  by (simp add: views_ok_def initial_def)










lemma hi: "utf8_decode toy_platform [104, 105] = js ''hi''"
  by (simp add: toy_platform_def js_def)





text \<open>The premise of C7 holds in every state that such a run reaches.\<close>

lemma reachable_typing_last:
  assumes "tracked P (initial pid kp page) evs" and "list_all typing_last page"
    and "k < length (document (run P (initial pid kp page) evs))"
  shows "typing_last (document (run P (initial pid kp page) evs) ! k)"
  by (rule views_ok_nth [OF views_ok_run [OF views_ok_initial [OF assms(2)]] assms(3)])

subsection \<open>Symmetric encryption of message bodies\<close>

lemma cipher_round_trip:
  assumes sender: "aesKeys stA to = Some (iv, key)"
    and receiver: "aesKeys stB p = Some (iv, key)"
    and enc: "aes_encrypt P iv key m = Some ct"
    and dec: "aes_decrypt P iv key ct = Some m"
  shows "encrypt_value P stA to m = Inr (stringify_bytes ct)
    \<and> decrypt_body P stB p (input_value (stringify_bytes ct))
        = (stB\<lparr>decrypt_calls := decrypt_calls stB @ [(iv, key, ct)]\<rparr>, Inr m)"
  using assms
  by (simp add: encrypt_value_def decrypt_body_def input_value_stringify json_bytes_stringify)

text \<open>
  Claim C6. AES-CBC itself is the browser's: the theorem takes what
  \<open>crypto.subtle.encrypt\<close> returns for the byte sequence \<open>m\<close> under \<open>(iv, key)\<close>, and
  that \<open>crypto.subtle.decrypt\<close> maps it back to \<open>m\<close> under the same pair. Then the
  code around them keeps the round trip: the sender's expression yields the JSON text
  of the ciphertext, which survives the input box, the receiver's
  \<open>new Uint8Array(JSON.parse(body))\<close> reads exactly the ciphertext bytes back, and the
  receiver's decrypt call, made with the same \<open>(iv, key)\<close> from its own table, returns
  exactly \<open>m\<close>.
\<close>

theorem symmetric_round_trip:
  assumes "aesKeys stA to = Some (iv, key)"
    and "aesKeys stB p = Some (iv, key)"
    and "aes_encrypt P iv key m = Some ct"
    and "aes_decrypt P iv key ct = Some m"
  shows "\<exists>v. encrypt_value P stA to m = Inr v
           \<and> json_bytes P (input_value v) = Inr ct
           \<and> decrypt_body P stB p (input_value v)
               = (stB\<lparr>decrypt_calls := decrypt_calls stB @ [(iv, key, ct)]\<rparr>, Inr m)"
  using cipher_round_trip [OF assms]
  by (simp add: input_value_stringify json_bytes_stringify)

text \<open>At \<open>alice_typing\<close> and \<open>bob_keyed\<close>, with the toy cipher.\<close>

theorem symmetric_round_trip_witness:
  "aesKeys alice_typing (js ''bob'') = Some ([7], [9])
   \<and> aesKeys bob_keyed (js ''alice'') = Some ([7], [9])
   \<and> aes_encrypt toy_platform [7] [9] [104, 105] = Some [105, 106]
   \<and> aes_decrypt toy_platform [7] [9] [105, 106] = Some [104, 105]
   \<and> (\<exists>v. encrypt_value toy_platform alice_typing (js ''bob'') [104, 105] = Inr v
          \<and> snd (decrypt_body toy_platform bob_keyed (js ''alice'') (input_value v))
              = Inr [104, 105])"
proof -
  have a: "aesKeys alice_typing (js ''bob'') = Some ([7], [9])"
    by (simp add: alice_typing_def alice_def initial_def)
  have b: "aesKeys bob_keyed (js ''alice'') = Some ([7], [9])"
    by (simp add: bob_keyed_def bob_def initial_def)
  have e: "aes_encrypt toy_platform [7] [9] [104, 105] = Some [105, 106]"
    and d: "aes_decrypt toy_platform [7] [9] [105, 106] = Some [104, 105]"
    by (simp_all add: toy_platform_def)
  from symmetric_round_trip [OF a b e d]
  have "\<exists>v. encrypt_value toy_platform alice_typing (js ''bob'') [104, 105] = Inr v
          \<and> snd (decrypt_body toy_platform bob_keyed (js ''alice'') (input_value v))
              = Inr [104, 105]"
    by auto
  with a b e d show ?thesis by (simp only: simp_thms)
qed

subsection \<open>Key exchange\<close>

lemma createChat_share:
  assumes "exportRSAKey (fst (keyPair st)) = Inr pem"
  shows "\<exists>st1. createChat st to True = (st1, Inr (RView (length (document st))))
    \<and> pending st1 = pending st @
        [(to, \<lparr>md_from = peer_id st, md_body = pem, md_time = [], md_id = [],
               md_event = Some RSAKeyShare, md_prev = None\<rparr>)]
    \<and> wire st1 = wire st \<and> aesKeys st1 = aesKeys st \<and> keyPair st1 = keyPair st
    \<and> peer_id st1 = peer_id st"
  using assms by (simp add: createChat_def Let_def send_def control_def)

lemma open_key_share:
  assumes "md_event md = Some RSAKeyShare \<or> md_event md = Some AESKeyShare"
    and "pending st = q @ [(to, md)]"
  shows "step P st (ChannelOpen (length q)) =
           st\<lparr>pending := q, wire := wire st @ [(to, md)], replying := None, editing := None\<rparr>"
  using assms
  by (auto simp: remove_nth_def onOpen_def echo_def)

lemma dispatch_rsa:
  assumes "md_event md = Some RSAKeyShare"
    and "importRSAKey P (md_body md) = Inr pub"
    and "rsa_encrypt P pub key = Some w"
  shows "dispatch P st el md (iv, key) =
      (st\<lparr>aesKeys := (aesKeys st)(md_from md \<mapsto> (iv, key)),
          pending := pending st @
            [(md_from md, \<lparr>md_from = peer_id st, md_body = stringify_pair iv w, md_time = [],
                           md_id = [], md_event = Some AESKeyShare, md_prev = None\<rparr>)]\<rparr>,
       Inr ())"
  using assms
  by (simp add: dispatch_def onRSAKeyShare_def Let_def send_def control_def)

lemma recv_rsa:
  assumes "md_event md = Some RSAKeyShare"
    and "importRSAKey P (md_body md) = Inr pub"
    and "rsa_encrypt P pub key = Some w"
  shows "\<exists>st1. onData P st md (iv, key) = (st1, Inr ())
    \<and> aesKeys st1 = (aesKeys st)(md_from md \<mapsto> (iv, key))
    \<and> pending st1 = pending st @
         [(md_from md, \<lparr>md_from = peer_id st, md_body = stringify_pair iv w, md_time = [],
                        md_id = [], md_event = Some AESKeyShare, md_prev = None\<rparr>)]
    \<and> wire st1 = wire st \<and> keyPair st1 = keyPair st \<and> peer_id st1 = peer_id st"
proof (cases "getElementById (document st) (md_from md)")
  case None
  then show ?thesis
    using dispatch_rsa [OF assms]
    by (simp add: onData_def createChat_def Let_def)
next
  case (Some el)
  then show ?thesis
    using dispatch_rsa [OF assms] by (simp add: onData_def)
qed

lemma dispatch_aes:
  assumes "md_event md = Some AESKeyShare"
    and "md_body md = stringify_pair iv w"
    and "rsa_decrypt P (snd (keyPair st)) w = Some key"
    and "valid_raw P key"
  shows "dispatch P st el md f = (st\<lparr>aesKeys := (aesKeys st)(md_from md \<mapsto> (iv, key))\<rparr>, Inr ())"
  using assms
  by (simp add: dispatch_def onAESKeyShare_def json_pair_stringify importKey_raw_def)

lemma recv_aes:
  assumes "md_event md = Some AESKeyShare"
    and "md_body md = stringify_pair iv w"
    and "rsa_decrypt P (snd (keyPair st)) w = Some key"
    and "valid_raw P key"
  shows "\<exists>st1. onData P st md f = (st1, Inr ())
    \<and> aesKeys st1 = (aesKeys st)(md_from md \<mapsto> (iv, key))"
proof (cases "getElementById (document st) (md_from md)")
  case None
  have "snd (keyPair (fst (createChat st (md_from md) False))) = snd (keyPair st)"
    "aesKeys (fst (createChat st (md_from md) False)) = aesKeys st"
    by (simp_all add: createChat_def Let_def)
  then show ?thesis
    using None dispatch_aes [OF assms(1,2) _ assms(4), of "fst (createChat st (md_from md) False)"]
      assms(3)
    by (simp add: onData_def createChat_def Let_def)
next
  case (Some el)
  then show ?thesis
    using dispatch_aes [OF assms] by (simp add: onData_def)
qed

text \<open>
  Claim C1. Peer \<open>A\<close> (state \<open>sA\<close>, key pair \<open>(pub, priv)\<close>) starts a chat with peer
  \<open>B\<close> and the channel opens: the \<open>RSAKeyShare\<close> envelope \<open>share\<close> with the exported
  public key is on the wire. \<open>B\<close> (state \<open>sB\<close>) receives it, draws \<open>iv\<close> and \<open>key\<close>,
  stores them for \<open>A\<close>, and its \<open>AESKeyShare\<close> envelope \<open>reply\<close> goes on the wire.
  \<open>A\<close> receives it, unwraps and stores. Provided the browser imports the public key
  and the AES key, RSA-OAEP decryption under \<open>priv\<close> undoes encryption under \<open>pub\<close> at
  \<open>key\<close>, and AES-CBC decryption undoes encryption at the plaintext \<open>m\<close>: no handler
  throws, \<open>A\<close> and \<open>B\<close> hold the same \<open>(iv, key)\<close> for each other, and a body
  encrypted on either side decrypts to \<open>m\<close> on the other.
\<close>

theorem key_exchange:
  assumes kp: "keyPair sA = (pub, priv)"
    and spki: "valid_spki P pub"
    and wrap: "rsa_encrypt P pub key = Some w"
    and unwrap: "rsa_decrypt P priv w = Some key"
    and raw: "valid_raw P key"
    and enc: "aes_encrypt P iv key m = Some ct"
    and dec: "aes_decrypt P iv key ct = Some m"
  shows "\<exists>sA1 share sB1 reply sA2.
      sA1 = step P (step P sA (CreateChat (peer_id sB))) (ChannelOpen (length (pending sA)))
    \<and> wire sA1 = wire sA @ [(peer_id sB, share)]
    \<and> md_event share = Some RSAKeyShare \<and> md_from share = peer_id sA
    \<and> snd (onData P sB share (iv, key)) = Inr ()
    \<and> sB1 = step P (step P sB (Receive share (iv, key))) (ChannelOpen (length (pending sB)))
    \<and> wire sB1 = wire sB @ [(peer_id sA, reply)]
    \<and> md_event reply = Some AESKeyShare \<and> md_from reply = peer_id sB
    \<and> snd (onData P sA1 reply f) = Inr ()
    \<and> sA2 = step P sA1 (Receive reply f)
    \<and> aesKeys sA2 (peer_id sB) = Some (iv, key)
    \<and> aesKeys sB1 (peer_id sA) = Some (iv, key)
    \<and> (\<exists>v. encrypt_value P sA2 (peer_id sB) m = Inr v
           \<and> snd (decrypt_body P sB1 (peer_id sA) (input_value v)) = Inr m)
    \<and> (\<exists>v. encrypt_value P sB1 (peer_id sA) m = Inr v
           \<and> snd (decrypt_body P sA2 (peer_id sB) (input_value v)) = Inr m)"
proof -
  obtain pem where pem: "exportRSAKey pub = Inr pem"
    and imp: "importRSAKey P pem = importKey_spki P pub"
    using pem_round_trip [of pub P] by blast
  from imp spki have imp': "importRSAKey P pem = Inr pub" by (simp add: importKey_spki_def)
  define share where "share = \<lparr>md_from = peer_id sA, md_body = pem, md_time = [], md_id = [],
               md_event = Some RSAKeyShare, md_prev = None\<rparr>"
  define reply where "reply = \<lparr>md_from = peer_id sB, md_body = stringify_pair iv w, md_time = [],
               md_id = [], md_event = Some AESKeyShare, md_prev = None\<rparr>"
  have ev: "md_event share = Some RSAKeyShare" "md_from share = peer_id sA"
    "md_body share = pem" by (simp_all add: share_def)
  have rev: "md_event reply = Some AESKeyShare" "md_from reply = peer_id sB"
    "md_body reply = stringify_pair iv w" by (simp_all add: reply_def)
  \<comment> \<open>A starts the chat and the channel opens\<close>
  from createChat_share [where st = sA and pem = pem and to = "peer_id sB"] pem kp
  obtain a1 where a1: "createChat sA (peer_id sB) True = (a1, Inr (RView (length (document sA))))"
    and a1p: "pending a1 = pending sA @ [(peer_id sB, share)]"
    and a1f: "wire a1 = wire sA" "aesKeys a1 = aesKeys sA" "keyPair a1 = keyPair sA"
    unfolding share_def by auto
  define sA1 where "sA1 = step P (step P sA (CreateChat (peer_id sB))) (ChannelOpen (length (pending sA)))"
  have sA1: "sA1 = a1\<lparr>pending := pending sA, wire := wire a1 @ [(peer_id sB, share)],
      replying := None, editing := None\<rparr>"
    unfolding sA1_def using open_key_share [where P = P, OF disjI1 [OF ev(1)] a1p] a1 by simp
  have A1: "wire sA1 = wire sA @ [(peer_id sB, share)]" "keyPair sA1 = (pub, priv)"
    "aesKeys sA1 = aesKeys sA"
    using a1f kp by (simp_all add: sA1)
  \<comment> \<open>B answers\<close>
  from recv_rsa [where P = P and st = sB and iv = iv and md = share, OF ev(1) _ wrap] imp' ev
  obtain b1 where b1: "onData P sB share (iv, key) = (b1, Inr ())"
    and b1k: "aesKeys b1 = (aesKeys sB)(peer_id sA \<mapsto> (iv, key))"
    and b1p: "pending b1 = pending sB @ [(peer_id sA, reply)]"
    and b1w: "wire b1 = wire sB"
    unfolding reply_def by auto
  define sB1 where "sB1 = step P (step P sB (Receive share (iv, key))) (ChannelOpen (length (pending sB)))"
  have sB1: "sB1 = b1\<lparr>pending := pending sB, wire := wire b1 @ [(peer_id sA, reply)],
      replying := None, editing := None\<rparr>"
    unfolding sB1_def using open_key_share [where P = P, OF disjI2 [OF rev(1)] b1p] b1 by simp
  have B1: "wire sB1 = wire sB @ [(peer_id sA, reply)]"
    "aesKeys sB1 (peer_id sA) = Some (iv, key)"
    using b1k b1w by (simp_all add: sB1)
  \<comment> \<open>A stores the key\<close>
  have "rsa_decrypt P (snd (keyPair sA1)) w = Some key" using A1(2) unwrap by simp
  from recv_aes [where f = f, OF rev(1) rev(3) this raw]
  obtain a2 where a2: "onData P sA1 reply f = (a2, Inr ())"
    and a2k: "aesKeys a2 = (aesKeys sA1)(peer_id sB \<mapsto> (iv, key))"
    using rev(2) by auto
  define sA2 where "sA2 = step P sA1 (Receive reply f)"
  have A2: "aesKeys sA2 (peer_id sB) = Some (iv, key)"
    using a2 a2k by (simp add: sA2_def)
  \<comment> \<open>both directions\<close>
  from cipher_round_trip [OF A2 B1(2) enc dec]
  have d1: "\<exists>v. encrypt_value P sA2 (peer_id sB) m = Inr v
           \<and> snd (decrypt_body P sB1 (peer_id sA) (input_value v)) = Inr m" by simp
  from cipher_round_trip [OF B1(2) A2 enc dec]
  have d2: "\<exists>v. encrypt_value P sB1 (peer_id sA) m = Inr v
           \<and> snd (decrypt_body P sA2 (peer_id sB) (input_value v)) = Inr m" by simp
  have o1: "snd (onData P sB share (iv, key)) = Inr ()" using b1 by simp
  have o2: "snd (onData P sA1 reply f) = Inr ()" using a2 by simp
  show ?thesis
    apply (rule exI [of _ sA1], rule exI [of _ share], rule exI [of _ sB1],
        rule exI [of _ reply], rule exI [of _ sA2])
    using A1(1) ev(1,2) o1 B1 rev(1,2) o2 A2 d1 d2
    unfolding sA1_def [symmetric] sB1_def [symmetric] sA2_def [symmetric]
    by (intro conjI) (simp_all only: sA1_def sB1_def sA2_def)
qed

text \<open>Between \<open>alice\<close> and \<open>bob\<close>, with the toy ciphers.\<close>

theorem key_exchange_witness:
  "keyPair alice = ([1, 2, 3], [4, 5, 6])
   \<and> valid_spki toy_platform [1, 2, 3]
   \<and> rsa_encrypt toy_platform [1, 2, 3] [9, 8] = Some [8, 9]
   \<and> rsa_decrypt toy_platform [4, 5, 6] [8, 9] = Some [9, 8]
   \<and> valid_raw toy_platform [9, 8]
   \<and> aes_encrypt toy_platform [7] [9, 8] [104, 105] = Some [105, 106]
   \<and> aes_decrypt toy_platform [7] [9, 8] [105, 106] = Some [104, 105]
   \<and> (\<exists>sA1 share sB1 reply sA2.
        sA1 = step toy_platform (step toy_platform alice (CreateChat (js ''bob''))) (ChannelOpen 0)
      \<and> wire sA1 = [(js ''bob'', share)]
      \<and> sB1 = step toy_platform (step toy_platform bob (Receive share ([7], [9, 8]))) (ChannelOpen 0)
      \<and> wire sB1 = [(js ''alice'', reply)]
      \<and> sA2 = step toy_platform sA1 (Receive reply ([], []))
      \<and> aesKeys sA2 (js ''bob'') = Some ([7], [9, 8])
      \<and> aesKeys sB1 (js ''alice'') = Some ([7], [9, 8]))"
proof -
  have kp: "keyPair alice = ([1, 2, 3], [4, 5, 6])"
    and pa: "pending alice = []" "wire alice = []" "peer_id alice = js ''alice''"
    by (simp_all add: alice_def initial_def)
  have pb: "pending bob = []" "wire bob = []" "peer_id bob = js ''bob''"
    by (simp_all add: bob_def initial_def)
  have p: "valid_spki toy_platform [1, 2, 3]"
    "rsa_encrypt toy_platform [1, 2, 3] [9, 8] = Some [8, 9]"
    "rsa_decrypt toy_platform [4, 5, 6] [8, 9] = Some [9, 8]"
    "valid_raw toy_platform [9, 8]"
    "aes_encrypt toy_platform [7] [9, 8] [104, 105] = Some [105, 106]"
    "aes_decrypt toy_platform [7] [9, 8] [105, 106] = Some [104, 105]"
    by (simp_all add: toy_platform_def)
  from key_exchange [where sB = bob and iv = "[7]" and f = "([], [])", OF kp p]
  have "\<exists>sA1 share sB1 reply sA2.
        sA1 = step toy_platform (step toy_platform alice (CreateChat (js ''bob''))) (ChannelOpen 0)
      \<and> wire sA1 = [(js ''bob'', share)]
      \<and> sB1 = step toy_platform (step toy_platform bob (Receive share ([7], [9, 8]))) (ChannelOpen 0)
      \<and> wire sB1 = [(js ''alice'', reply)]
      \<and> sA2 = step toy_platform sA1 (Receive reply ([], []))
      \<and> aesKeys sA2 (js ''bob'') = Some ([7], [9, 8])
      \<and> aesKeys sB1 (js ''alice'') = Some ([7], [9, 8])"
    unfolding pa pb list.size append_Nil by blast
  with kp p show ?thesis by (simp only: simp_thms)
qed

end
